theory Spec2Isabelle
  imports Complex_Main
begin

section \<open>Numbers and exceptions\<close>

text \<open>
  Both scripts compute with Python floats and numpy float64 arrays. Where a result
  depends on how a double is rounded or on an infinite value (the step count of the
  integrators, their updates, the product compared with the hysteresis threshold, the
  dot product of the recall), the floating-point operation is a parameter of the model
  and the theorems hold for every choice of it. Stimulus selection compares stored
  values only, which is exact on doubles, and the motor direction and the trained
  weights are real-valued outputs: there a finite double is read as the real it denotes.
  The Hopfield state vectors are numpy integer arrays (the digit patterns are integer
  literals), so their entries are \<open>int\<close>. An exception raised by the interpreter is a
  value of \<open>error\<close>, returned on the left of a sum. Calls of \<open>print\<close> and of the
  plotting library do not influence any returned value and are left out.
\<close>

datatype error = ValueError | IndexError | ZeroDivisionError | OverflowError

text \<open>\<open>a / b\<close> on Python numbers: true division, which raises on a zero divisor.\<close>

definition py_truediv :: "real \<Rightarrow> real \<Rightarrow> error + real" where
  "py_truediv a b = (if b = 0 then Inl ZeroDivisionError else Inr (a / b))"

text \<open>\<open>range(n)\<close> runs \<open>n\<close> times, and not at all for a negative \<open>n\<close>.\<close>

definition py_range_len :: "int \<Rightarrow> nat" where
  "py_range_len n = nat n"

text \<open>
  \<open>max(xs)\<close> on a list: ValueError on the empty list, otherwise a left-to-right scan
  that replaces the running maximum by a strictly greater item.
\<close>

fun py_max :: "real list \<Rightarrow> error + real" where
  "py_max [] = Inl ValueError"
| "py_max (x # xs) = Inr (foldl (\<lambda>m v. if v > m then v else m) x xs)"

section \<open>Doubles\<close>

text \<open>
  A double is a finite value, an infinity or NaN. The two zeros are not told apart.
\<close>

datatype double = Finite real | PosInf | NegInf | NaN

text \<open>
  The arithmetic of the interpreter on doubles. Addition, subtraction and
  multiplication round and may overflow to an infinity; the division \<open>a / b\<close> may
  also raise (ZeroDivisionError for a Python float divided by zero, where a numpy
  float gives an infinity or NaN). None of this is fixed here: the functions below
  take the arithmetic as their first argument.
\<close>

record arith =
  fl_add :: "double \<Rightarrow> double \<Rightarrow> double"
  fl_sub :: "double \<Rightarrow> double \<Rightarrow> double"
  fl_mul :: "double \<Rightarrow> double \<Rightarrow> double"
  fl_truediv :: "double \<Rightarrow> double \<Rightarrow> error + double"

text \<open>\<open>a < b\<close> on doubles is exact; every comparison with NaN is false.\<close>

fun fl_less :: "double \<Rightarrow> double \<Rightarrow> bool" where
  "fl_less (Finite a) (Finite b) = (a < b)"
| "fl_less (Finite a) PosInf = True"
| "fl_less NegInf (Finite b) = True"
| "fl_less NegInf PosInf = True"
| "fl_less _ _ = False"

text \<open>
  \<open>int(q)\<close> on a float: truncation towards zero, OverflowError on an infinity and
  ValueError on NaN.
\<close>

definition trunc_real :: "real \<Rightarrow> int" where
  "trunc_real q = (if 0 \<le> q then \<lfloor>q\<rfloor> else \<lceil>q\<rceil>)"

fun py_int :: "double \<Rightarrow> error + int" where
  "py_int (Finite q) = Inr (trunc_real q)"
| "py_int PosInf = Inl OverflowError"
| "py_int NegInf = Inl OverflowError"
| "py_int NaN = Inl ValueError"

section \<open>Tarea2: the Euler integrator\<close>

text \<open>
  The body of the \<open>for\<close> loop of \<open>euler_method\<close>, run \<open>k\<close> more times on the
  loop variables \<open>y\<close>, \<open>t\<close> and the two result lists.
\<close>

fun euler_loop ::
  "arith \<Rightarrow> nat \<Rightarrow> (double \<Rightarrow> double \<Rightarrow> double \<Rightarrow> double) \<Rightarrow> double \<Rightarrow> double
     \<Rightarrow> double \<Rightarrow> double \<Rightarrow> double list \<Rightarrow> double list \<Rightarrow> double list \<times> double list" where
  "euler_loop ar 0 f dt I_ext y t ys ts = (ts, ys)"
| "euler_loop ar (Suc k) f dt I_ext y t ys ts =
     (let y' = fl_add ar y (fl_mul ar (f y t I_ext) dt);
          t' = fl_add ar t dt
      in euler_loop ar k f dt I_ext y' t' (ys @ [y']) (ts @ [t']))"

definition euler_method ::
  "arith \<Rightarrow> (double \<Rightarrow> double \<Rightarrow> double \<Rightarrow> double) \<Rightarrow> double \<Rightarrow> double \<Rightarrow> double
     \<Rightarrow> double \<Rightarrow> double \<Rightarrow> error + (double list \<times> double list)" where
  "euler_method ar f y0 t0 tf dt I_ext =
     (case fl_truediv ar (fl_sub ar tf t0) dt of
        Inl e \<Rightarrow> Inl e
      | Inr q \<Rightarrow>
          (case py_int q of
             Inl e \<Rightarrow> Inl e
           | Inr n_steps \<Rightarrow>
               Inr (euler_loop ar (py_range_len n_steps) f dt I_ext y0 t0 [y0] [t0])))"

section \<open>Tarea2: stimulus selection and the motor scheme\<close>

text \<open>
  \<open>select_stimulus\<close> returns either one index (a Python int) or the list of tied
  indices (a Python list); \<open>motor_scheme\<close> tells them apart with \<open>isinstance\<close>.
\<close>

datatype selection = Index nat | Indices "nat list"

definition max_indices_of :: "real list \<Rightarrow> real \<Rightarrow> nat list" where
  "max_indices_of stimuli max_value =
     map fst (filter (\<lambda>(i, val). val = max_value) (enumerate 0 stimuli))"

text \<open>\<open>xs[0]\<close>: IndexError on the empty list.\<close>

definition py_first :: "'a list \<Rightarrow> error + 'a" where
  "py_first xs = (case xs of [] \<Rightarrow> Inl IndexError | x # _ \<Rightarrow> Inr x)"

definition select_stimulus :: "real list \<Rightarrow> error + selection" where
  "select_stimulus stimuli =
     (case py_max stimuli of
        Inl e \<Rightarrow> Inl e
      | Inr max_value \<Rightarrow>
          (let max_indices = max_indices_of stimuli max_value
           in if length max_indices > 1 then Inr (Indices max_indices)
              else (case py_first max_indices of
                      Inl e \<Rightarrow> Inl e
                    | Inr i \<Rightarrow> Inr (Index i))))"

text \<open>The second selector returns \<open>None\<close> on a tie and the index otherwise.\<close>

definition select_stimulus_no_winner :: "real list \<Rightarrow> error + nat option" where
  "select_stimulus_no_winner stimuli =
     (case py_max stimuli of
        Inl e \<Rightarrow> Inl e
      | Inr max_value \<Rightarrow>
          (let max_indices = max_indices_of stimuli max_value
           in if length max_indices > 1 then Inr None
              else (case py_first max_indices of
                      Inl e \<Rightarrow> Inl e
                    | Inr i \<Rightarrow> Inr (Some i))))"

definition hysteresis :: "real list \<Rightarrow> real \<Rightarrow> real \<Rightarrow> error + real" where
  "hysteresis stimuli previous_output threshold =
     (case py_max stimuli of
        Inl e \<Rightarrow> Inl e
      | Inr max_stimulus \<Rightarrow>
          if max_stimulus > threshold then Inr max_stimulus else Inr previous_output)"

text \<open>
  The two branches of \<open>motor_scheme\<close> after the selection, for \<open>n = len(stimuli)\<close>.
  \<open>(n - 1) / 2\<close> is a true division of Python ints, so it is computed on reals
  (\<open>n = 0\<close> gives \<open>-0.5\<close>); the average divides by the length of the list.
\<close>

fun motor_direction :: "selection \<Rightarrow> nat \<Rightarrow> error + real" where
  "motor_direction (Indices selected_indices) n =
     py_truediv (sum_list (map (\<lambda>i. real i - (real n - 1) / 2) selected_indices))
                (real (length selected_indices))"
| "motor_direction (Index i) n = Inr (real i - (real n - 1) / 2)"

definition motor_scheme :: "real list \<Rightarrow> error + real" where
  "motor_scheme stimuli =
     (case select_stimulus stimuli of
        Inl e \<Rightarrow> Inl e
      | Inr selected_indices \<Rightarrow> motor_direction selected_indices (length stimuli))"

section \<open>Tarea2: the Euler integrator with hysteresis\<close>

text \<open>The variables that the loop of \<open>metodoEulerHisteresis\<close> assigns.\<close>

record histeresis_vars =
  voltaje :: double
  tiempo :: double
  voltajeAnterior :: double
  voltajes :: "double list"
  tiempos :: "double list"

text \<open>
  The current of loop index \<open>i\<close>: ten times the stimulus of that index, and the
  integer 0 past the end of the stimuli.
\<close>

definition corrienteExterna_de :: "arith \<Rightarrow> double list \<Rightarrow> nat \<Rightarrow> double" where
  "corrienteExterna_de ar estimulos i =
     (if i < length estimulos then fl_mul ar (estimulos ! i) (Finite 10) else Finite 0)"

text \<open>One pass of the loop body, for loop index \<open>i\<close>.\<close>

definition metodoEulerHisteresis_paso ::
  "arith \<Rightarrow> (double \<Rightarrow> double \<Rightarrow> double \<Rightarrow> double) \<Rightarrow> double \<Rightarrow> double list \<Rightarrow> double
     \<Rightarrow> nat \<Rightarrow> histeresis_vars \<Rightarrow> histeresis_vars" where
  "metodoEulerHisteresis_paso ar funcion pasoTiempo estimulos umbral i s =
     (let corrienteExterna = corrienteExterna_de ar estimulos i;
          s1 = (if fl_less umbral corrienteExterna
                then (let v = fl_add ar (voltaje s)
                                (fl_mul ar (funcion (voltaje s) (tiempo s) corrienteExterna)
                                   pasoTiempo)
                      in s\<lparr>voltaje := v, voltajeAnterior := v\<rparr>)
                else s\<lparr>voltaje := voltajeAnterior s\<rparr>);
          t = fl_add ar (tiempo s1) pasoTiempo
      in s1\<lparr>tiempo := t, voltajes := voltajes s1 @ [voltaje s1], tiempos := tiempos s1 @ [t]\<rparr>)"

definition metodoEulerHisteresis ::
  "arith \<Rightarrow> (double \<Rightarrow> double \<Rightarrow> double \<Rightarrow> double) \<Rightarrow> double \<Rightarrow> double \<Rightarrow> double
     \<Rightarrow> double \<Rightarrow> double list \<Rightarrow> double \<Rightarrow> double \<Rightarrow> error + (double list \<times> double list)" where
  "metodoEulerHisteresis ar funcion voltajeInicial tiempoInicial tiempoFinal pasoTiempo
       estimulos umbral voltajeAnterior0 =
     (case fl_truediv ar (fl_sub ar tiempoFinal tiempoInicial) pasoTiempo of
        Inl e \<Rightarrow> Inl e
      | Inr q \<Rightarrow>
          (case py_int q of
             Inl e \<Rightarrow> Inl e
           | Inr numeroPasos \<Rightarrow>
               (let s0 = \<lparr>voltaje = voltajeInicial, tiempo = tiempoInicial,
                          voltajeAnterior = voltajeAnterior0,
                          voltajes = [voltajeInicial], tiempos = [tiempoInicial]\<rparr>;
                    s = fold (metodoEulerHisteresis_paso ar funcion pasoTiempo estimulos umbral)
                             [0..<py_range_len numeroPasos] s0
                in Inr (tiempos s, voltajes s))))"

section \<open>Tarea3: Hebbian training\<close>

text \<open>
  A two-dimensional numpy array is a list of rows of one common length. The batch of
  patterns is an integer array, the weight matrix a float array. \<open>patterns.shape[1]\<close>
  is the common row length; the empty list stands for \<open>np.array([])\<close>, whose shape has
  one entry only, so that \<open>shape[1]\<close> raises IndexError.
\<close>

definition shape1 :: "'a list list \<Rightarrow> error + nat" where
  "shape1 patterns = (case patterns of [] \<Rightarrow> Inl IndexError | p # _ \<Rightarrow> Inr (length p))"

definition np_zeros :: "nat \<Rightarrow> nat \<Rightarrow> real list list" where
  "np_zeros r c = replicate r (replicate c 0)"

definition np_outer :: "int list \<Rightarrow> int list \<Rightarrow> int list list" where
  "np_outer p q = map (\<lambda>a. map (\<lambda>b. a * b) q) p"

text \<open>\<open>W += M\<close> for an integer matrix \<open>M\<close> of the shape of \<open>W\<close>.\<close>

definition mat_iadd :: "real list list \<Rightarrow> int list list \<Rightarrow> real list list" where
  "mat_iadd W M = map2 (\<lambda>wrow mrow. map2 (\<lambda>w m. w + real_of_int m) wrow mrow) W M"

text \<open>\<open>np.fill_diagonal(W, 0)\<close>\<close>

definition fill_diagonal0 :: "real list list \<Rightarrow> real list list" where
  "fill_diagonal0 W = map (\<lambda>(i, row). row[i := 0]) (enumerate 0 W)"

text \<open>
  \<open>W /= num_neurons\<close> divides every entry; with \<open>num_neurons = 0\<close> the matrix has no
  entry, so no division by zero takes place.
\<close>

definition train_hopfield :: "int list list \<Rightarrow> real \<Rightarrow> error + real list list" where
  "train_hopfield patterns normalization_factor =
     (case shape1 patterns of
        Inl e \<Rightarrow> Inl e
      | Inr num_neurons \<Rightarrow>
          (let W0 = np_zeros num_neurons num_neurons;
               W1 = fold (\<lambda>p W. mat_iadd W (np_outer p p)) patterns W0;
               W2 = map (map (\<lambda>w. w / real num_neurons)) W1;
               W3 = fill_diagonal0 W2
           in Inr (map (map (\<lambda>w. w * normalization_factor)) W3)))"

section \<open>Tarea3: asynchronous recall\<close>

text \<open>
  \<open>hopfield_step_async\<close> assigns to the entries of the array it is given and returns
  that same array, and \<open>recall_async\<close> works on a copy. To tell the two apart, arrays
  live in a store: an address is an index into the list of all arrays allocated so far,
  and allocation appends. The weight matrix is only read, so it is passed as a value.
\<close>

type_synonym addr = nat
type_synonym store = "int list list"

definition np_sign :: "real \<Rightarrow> int" where
  "np_sign d = (if d < 0 then - 1 else if d = 0 then 0 else 1)"

text \<open>
  \<open>np.dot\<close> of two one-dimensional arrays raises ValueError when the lengths differ.
  Otherwise it returns a double that depends on how the library accumulates the sum,
  so its value is a parameter \<open>dot\<close> of the model: a function of the row and of the
  state, about which nothing else is assumed. Only its sign is used, and an infinite
  dot product has the sign of any real on its side of zero. A dot product that is NaN,
  for which partial sums must overflow to infinities of both signs, is not modelled.
\<close>

definition np_dot ::
  "(real list \<Rightarrow> int list \<Rightarrow> real) \<Rightarrow> real list \<Rightarrow> int list \<Rightarrow> error + real" where
  "np_dot dot w x = (if length w \<noteq> length x then Inl ValueError else Inr (dot w x))"

text \<open>
  The sum of the products without rounding. The double dot product equals it on the
  rows of the examples below, where at most one product is not zero or every partial
  sum is a small integer.
\<close>

definition dot_sum :: "real list \<Rightarrow> int list \<Rightarrow> real" where
  "dot_sum w x = sum_list (map2 (\<lambda>a b. a * real_of_int b) w x)"

text \<open>
  The loop of \<open>hopfield_step_async\<close> over the indices that \<open>range(len(x))\<close> produced,
  on the array at address \<open>x\<close>. \<open>W[i]\<close> raises IndexError past the last row. An
  exception leaves the store as the assignments made so far have changed it.
\<close>

fun hopfield_step_loop ::
  "(real list \<Rightarrow> int list \<Rightarrow> real) \<Rightarrow> real list list \<Rightarrow> addr \<Rightarrow> nat list \<Rightarrow> store
     \<Rightarrow> error option \<times> store" where
  "hopfield_step_loop dot W x [] h = (None, h)"
| "hopfield_step_loop dot W x (i # is) h =
     (if i \<ge> length W then (Some IndexError, h)
      else (case np_dot dot (W ! i) (h ! x) of
              Inl e \<Rightarrow> (Some e, h)
            | Inr d \<Rightarrow> hopfield_step_loop dot W x is (h[x := (h ! x)[i := np_sign d]])))"

definition hopfield_step_async ::
  "(real list \<Rightarrow> int list \<Rightarrow> real) \<Rightarrow> addr \<Rightarrow> real list list \<Rightarrow> store
     \<Rightarrow> (error + addr) \<times> store" where
  "hopfield_step_async dot x W h =
     (case hopfield_step_loop dot W x [0..<length (h ! x)] h of
        (Some e, h') \<Rightarrow> (Inl e, h')
      | (None, h') \<Rightarrow> (Inr x, h'))"

text \<open>\<open>pattern.copy()\<close>: a new array with the same entries.\<close>

definition np_copy :: "addr \<Rightarrow> store \<Rightarrow> addr \<times> store" where
  "np_copy a h = (length h, h @ [h ! a])"

fun recall_loop ::
  "(real list \<Rightarrow> int list \<Rightarrow> real) \<Rightarrow> nat \<Rightarrow> addr \<Rightarrow> real list list \<Rightarrow> store
     \<Rightarrow> (error + addr) \<times> store" where
  "recall_loop dot 0 x W h = (Inr x, h)"
| "recall_loop dot (Suc k) x W h =
     (case hopfield_step_async dot x W h of
        (Inl e, h') \<Rightarrow> (Inl e, h')
      | (Inr x', h') \<Rightarrow> recall_loop dot k x' W h')"

definition recall_async ::
  "(real list \<Rightarrow> int list \<Rightarrow> real) \<Rightarrow> addr \<Rightarrow> real list list \<Rightarrow> int \<Rightarrow> store
     \<Rightarrow> (error + addr) \<times> store" where
  "recall_async dot pattern W steps h =
     (case np_copy pattern h of
        (x, h1) \<Rightarrow> recall_loop dot (py_range_len steps) x W h1)"

section \<open>Tarea3: what a sweep computes\<close>

text \<open>
  The effect of one sweep on the entries of the array, apart from the store: the
  entries are assigned one after the other, each from the array as it is by then.
\<close>

definition async_sweep ::
  "(real list \<Rightarrow> int list \<Rightarrow> real) \<Rightarrow> real list list \<Rightarrow> int list \<Rightarrow> int list" where
  "async_sweep dot W x = fold (\<lambda>i x. x[i := np_sign (dot (W ! i) x)]) [0..<length x] x"

text \<open>
  The sweep as the specification words it: \<open>y\<close> is the array after a sweep that
  started from \<open>x\<close> when every entry \<open>y ! i\<close> is the sign of the dot product of row
  \<open>i\<close> with the array that holds the new entries before position \<open>i\<close> and the old
  ones from position \<open>i\<close> on.
\<close>

definition in_place_sweep ::
  "(real list \<Rightarrow> int list \<Rightarrow> real) \<Rightarrow> real list list \<Rightarrow> int list \<Rightarrow> int list \<Rightarrow> bool" where
  "in_place_sweep dot W x y \<longleftrightarrow>
     length y = length x \<and>
     (\<forall>i \<in> {0..<length x}. y ! i = np_sign (dot (W ! i) (take i y @ drop i x)))"

text \<open>
  For comparison, the update that computes every entry from the array as it was at the
  start of the sweep. The source does not do this.
\<close>

definition synchronous_sweep ::
  "(real list \<Rightarrow> int list \<Rightarrow> real) \<Rightarrow> real list list \<Rightarrow> int list \<Rightarrow> int list" where
  "synchronous_sweep dot W x = map (\<lambda>i. np_sign (dot (W ! i) x)) [0..<length x]"

section \<open>Values of the simulation script\<close>

text \<open>The stimuli of the second simulation, with the maximum at two positions.\<close>

definition stimuli_2 :: "real list" where
  "stimuli_2 = [0.1, 0.5, 0.8, 0.9, 0.2, 0.7, 0.4, 0.3, 0.9, 0.2]"

text \<open>The stimuli, the previous state and the threshold of the fourth simulation.\<close>

definition stimuli_4 :: "real list" where
  "stimuli_4 = [0.1, 0.5, 0.73, 0.4, 0.6, 0.44, 0.2, 0.62, 0.3, 0.5]"

definition previous_output_sim4 :: real where
  "previous_output_sim4 = 0.7"

definition threshold_sim4 :: real where
  "threshold_sim4 = 0.75"

section \<open>An arithmetic for the examples\<close>

text \<open>
  Double arithmetic without rounding: on finite operands the exact result, replaced by
  an infinity from \<open>2 ^ 1024\<close> on; the infinities and NaN combine as in IEEE 754; a
  zero divisor raises, as for Python floats. It agrees with the arithmetic of the
  interpreter wherever the exact result is a double or is \<open>2 ^ 1024\<close> or more in
  absolute value, which is so for every operation of the examples below (small
  integers, powers of two and one overflow).
\<close>

definition overflow :: "real \<Rightarrow> double" where
  "overflow r = (if 2 ^ 1024 \<le> r then PosInf else if r \<le> - (2 ^ 1024) then NegInf else Finite r)"

fun ex_neg :: "double \<Rightarrow> double" where
  "ex_neg (Finite a) = Finite (- a)"
| "ex_neg PosInf = NegInf"
| "ex_neg NegInf = PosInf"
| "ex_neg NaN = NaN"

fun ex_add :: "double \<Rightarrow> double \<Rightarrow> double" where
  "ex_add NaN b = NaN"
| "ex_add a NaN = NaN"
| "ex_add (Finite a) (Finite b) = overflow (a + b)"
| "ex_add PosInf NegInf = NaN"
| "ex_add NegInf PosInf = NaN"
| "ex_add PosInf b = PosInf"
| "ex_add NegInf b = NegInf"
| "ex_add (Finite a) b = b"

definition ex_sub :: "double \<Rightarrow> double \<Rightarrow> double" where
  "ex_sub a b = ex_add a (ex_neg b)"

text \<open>The sign of a double that is not NaN, as \<open>-1\<close>, 0 or 1.\<close>

fun ex_sign :: "double \<Rightarrow> real" where
  "ex_sign (Finite a) = sgn a"
| "ex_sign PosInf = 1"
| "ex_sign NegInf = - 1"
| "ex_sign NaN = 0"

definition ex_inf :: "real \<Rightarrow> double" where
  "ex_inf s = (if s = 0 then NaN else if 0 < s then PosInf else NegInf)"

fun ex_mul :: "double \<Rightarrow> double \<Rightarrow> double" where
  "ex_mul NaN b = NaN"
| "ex_mul a NaN = NaN"
| "ex_mul (Finite a) (Finite b) = overflow (a * b)"
| "ex_mul a b = ex_inf (ex_sign a * ex_sign b)"

fun ex_truediv :: "double \<Rightarrow> double \<Rightarrow> error + double" where
  "ex_truediv a (Finite b) =
     (if b = 0 then Inl ZeroDivisionError
      else (case a of
              Finite x \<Rightarrow> Inr (overflow (x / b))
            | NaN \<Rightarrow> Inr NaN
            | _ \<Rightarrow> Inr (ex_inf (ex_sign a * sgn b))))"
| "ex_truediv a NaN = Inr NaN"
| "ex_truediv (Finite a) b = Inr (Finite 0)"
| "ex_truediv NaN b = Inr NaN"
| "ex_truediv a b = Inr NaN"

definition exact_arith :: arith where
  "exact_arith = \<lparr>fl_add = ex_add, fl_sub = ex_sub, fl_mul = ex_mul, fl_truediv = ex_truediv\<rparr>"

section \<open>The Euler integrator returns the forward trajectory\<close>

text \<open>
  The loop keeps the two lists equally long and linked by the update rule; the loop
  variables are the last entries of the lists.
\<close>

lemma euler_loop_inv:
  assumes "length ys = length ts" "ys \<noteq> []" "last ys = y" "last ts = t"
    and "\<forall>j. Suc j < length ys \<longrightarrow>
           ys ! Suc j = fl_add ar (ys ! j) (fl_mul ar (f (ys ! j) (ts ! j) I_ext) dt) \<and>
           ts ! Suc j = fl_add ar (ts ! j) dt"
  shows "\<exists>ts' ys'. euler_loop ar k f dt I_ext y t ys ts = (ts', ys') \<and>
           length ts' = length ts + k \<and> length ys' = length ys + k \<and>
           ts' ! 0 = ts ! 0 \<and> ys' ! 0 = ys ! 0 \<and>
           (\<forall>j. Suc j < length ys' \<longrightarrow>
              ys' ! Suc j = fl_add ar (ys' ! j) (fl_mul ar (f (ys' ! j) (ts' ! j) I_ext) dt) \<and>
              ts' ! Suc j = fl_add ar (ts' ! j) dt)"
  using assms
proof (induction k arbitrary: y t ys ts)
  case 0
  then show ?case by simp
next
  case (Suc k)
  let ?y = "fl_add ar y (fl_mul ar (f y t I_ext) dt)" and ?t = "fl_add ar t dt"
  have ts_ne: "ts \<noteq> []" using Suc.prems by auto
  have lasty: "ys ! (length ys - 1) = y" and lastt: "ts ! (length ts - 1) = t"
    using Suc.prems ts_ne by (simp_all add: last_conv_nth)
  have chain: "\<forall>j. Suc j < length (ys @ [?y]) \<longrightarrow>
      (ys @ [?y]) ! Suc j
        = fl_add ar ((ys @ [?y]) ! j) (fl_mul ar (f ((ys @ [?y]) ! j) ((ts @ [?t]) ! j) I_ext) dt)
      \<and> (ts @ [?t]) ! Suc j = fl_add ar ((ts @ [?t]) ! j) dt"
  proof (intro allI impI)
    fix j assume j: "Suc j < length (ys @ [?y])"
    show "(ys @ [?y]) ! Suc j
        = fl_add ar ((ys @ [?y]) ! j) (fl_mul ar (f ((ys @ [?y]) ! j) ((ts @ [?t]) ! j) I_ext) dt)
      \<and> (ts @ [?t]) ! Suc j = fl_add ar ((ts @ [?t]) ! j) dt"
    proof (cases "Suc j < length ys")
      case True
      then show ?thesis using Suc.prems(1,5) by (simp add: nth_append)
    next
      case False
      then have "Suc j = length ys" using j by simp
      then have jj: "j = length ys - 1" "j = length ts - 1" "j < length ys" "j < length ts"
        using Suc.prems(1) by simp_all
      show ?thesis using lasty lastt jj(3,4) \<open>Suc j = length ys\<close> Suc.prems(1)
        unfolding jj(1) [symmetric] jj(2) [symmetric] by (simp add: nth_append)
    qed
  qed
  have "\<exists>ts' ys'. euler_loop ar k f dt I_ext ?y ?t (ys @ [?y]) (ts @ [?t]) = (ts', ys') \<and>
           length ts' = length (ts @ [?t]) + k \<and> length ys' = length (ys @ [?y]) + k \<and>
           ts' ! 0 = (ts @ [?t]) ! 0 \<and> ys' ! 0 = (ys @ [?y]) ! 0 \<and>
           (\<forall>j. Suc j < length ys' \<longrightarrow>
              ys' ! Suc j = fl_add ar (ys' ! j) (fl_mul ar (f (ys' ! j) (ts' ! j) I_ext) dt) \<and>
              ts' ! Suc j = fl_add ar (ts' ! j) dt)"
    by (rule Suc.IH) (use Suc.prems chain in simp_all)
  then show ?case using Suc.prems(1,2) ts_ne by (auto simp add: Let_def nth_append)
qed

lemma trunc_real_floor: "0 \<le> q \<Longrightarrow> trunc_real q = \<lfloor>q\<rfloor>"
  by (simp add: trunc_real_def)

lemma steps_zero: "q < 1 \<Longrightarrow> py_range_len (trunc_real q) = 0"
proof (cases "0 \<le> q")
  case True
  assume "q < 1"
  with True have "\<lfloor>q\<rfloor> = 0" by linarith
  with True show ?thesis by (simp add: trunc_real_def py_range_len_def)
next
  case False
  then have "\<lceil>q\<rceil> \<le> 0" by linarith
  with False show ?thesis by (simp add: trunc_real_def py_range_len_def)
qed

text \<open>
  The step count is the truncation of the computed quotient; a call whose quotient is
  no finite number ends with an exception before the loop.
\<close>

lemma euler_method_finite:
  assumes "fl_truediv ar (fl_sub ar tf t0) dt = Inr (Finite q)"
  shows "euler_method ar f y0 t0 tf dt I_ext
         = Inr (euler_loop ar (nat (trunc_real q)) f dt I_ext y0 t0 [y0] [t0])"
  using assms by (simp add: euler_method_def py_range_len_def)

lemma euler_method_not_finite:
  assumes "\<forall>q. fl_truediv ar (fl_sub ar tf t0) dt \<noteq> Inr (Finite q)"
  shows "\<exists>e. euler_method ar f y0 t0 tf dt I_ext = Inl e"
proof (cases "fl_truediv ar (fl_sub ar tf t0) dt")
  case (Inl e)
  then show ?thesis by (simp add: euler_method_def)
next
  case (Inr d)
  with assms show ?thesis by (cases d) (simp_all add: euler_method_def)
qed

lemma euler_method_run:
  assumes "fl_truediv ar (fl_sub ar tf t0) dt = Inr (Finite q)"
  shows "\<exists>ts ys. euler_method ar f y0 t0 tf dt I_ext = Inr (ts, ys) \<and>
           length ts = nat (trunc_real q) + 1 \<and> length ys = nat (trunc_real q) + 1 \<and>
           ts ! 0 = t0 \<and> ys ! 0 = y0 \<and>
           (\<forall>k < nat (trunc_real q).
              ys ! (k + 1) = fl_add ar (ys ! k) (fl_mul ar (f (ys ! k) (ts ! k) I_ext) dt) \<and>
              ts ! (k + 1) = fl_add ar (ts ! k) dt)"
proof -
  let ?n = "nat (trunc_real q)"
  have em: "euler_method ar f y0 t0 tf dt I_ext = Inr (euler_loop ar ?n f dt I_ext y0 t0 [y0] [t0])"
    by (rule euler_method_finite [OF assms])
  have "\<exists>ts ys. euler_loop ar ?n f dt I_ext y0 t0 [y0] [t0] = (ts, ys) \<and>
           length ts = length [t0] + ?n \<and> length ys = length [y0] + ?n \<and>
           ts ! 0 = [t0] ! 0 \<and> ys ! 0 = [y0] ! 0 \<and>
           (\<forall>j. Suc j < length ys \<longrightarrow>
              ys ! Suc j = fl_add ar (ys ! j) (fl_mul ar (f (ys ! j) (ts ! j) I_ext) dt) \<and>
              ts ! Suc j = fl_add ar (ts ! j) dt)"
    by (rule euler_loop_inv) simp_all
  then obtain ts ys where l: "euler_loop ar ?n f dt I_ext y0 t0 [y0] [t0] = (ts, ys)"
    and len: "length ts = ?n + 1" "length ys = ?n + 1"
    and first: "ts ! 0 = t0" "ys ! 0 = y0"
    and ch: "\<forall>j. Suc j < length ys \<longrightarrow>
              ys ! Suc j = fl_add ar (ys ! j) (fl_mul ar (f (ys ! j) (ts ! j) I_ext) dt) \<and>
              ts ! Suc j = fl_add ar (ts ! j) dt"
    by fastforce
  have ch': "\<forall>k < ?n. ys ! (k + 1) = fl_add ar (ys ! k) (fl_mul ar (f (ys ! k) (ts ! k) I_ext) dt) \<and>
               ts ! (k + 1) = fl_add ar (ts ! k) dt"
  proof (intro allI impI)
    fix k assume "k < ?n"
    then have "Suc k < length ys" using len by simp
    with ch show "ys ! (k + 1) = fl_add ar (ys ! k) (fl_mul ar (f (ys ! k) (ts ! k) I_ext) dt) \<and>
               ts ! (k + 1) = fl_add ar (ts ! k) dt"
      by simp
  qed
  have "euler_method ar f y0 t0 tf dt I_ext = Inr (ts, ys)" using em l by simp
  with len first ch' show ?thesis
    by (intro exI [of _ ts] exI [of _ ys] conjI) assumption+
qed

text \<open>
  Claim C3 has every call with \<open>t0 \<le> tf\<close> and \<open>0 < dt\<close> return two sequences. With
  \<open>t0 = 0\<close>, \<open>tf = 2 ^ 1023\<close> and \<open>dt = 1 / 4\<close> the quotient \<open>2 ^ 1025\<close> is beyond
  the largest double: the division gives infinity and \<open>int\<close> raises OverflowError.
\<close>

theorem euler_method_overflow_counterexample:
  "(0 :: real) \<le> 2 ^ 1023 \<and> (0 :: real) < 1 / 4 \<and>
   euler_method exact_arith (\<lambda>y t I. y) (Finite 1) (Finite 0) (Finite (2 ^ 1023)) (Finite (1 / 4))
     (Finite 0) = Inl OverflowError"
  by (simp add: euler_method_def exact_arith_def ex_sub_def overflow_def)

text \<open>
  Claim C3, for a finite quotient. Whatever the double arithmetic, when the quotient
  \<open>(tf - t0) / dt\<close> that it computes is a finite \<open>q \<ge> 0\<close>, the integrator returns two
  lists of length \<open>n_steps + 1\<close>, where \<open>n_steps = floor q\<close> is computed before the
  loop; they start with \<open>t0\<close> and \<open>y0\<close>, and every later entry is the forward Euler
  update of the entry before it, computed in that arithmetic.
\<close>

theorem euler_method_forward:
  assumes "fl_truediv ar (fl_sub ar tf t0) dt = Inr (Finite q)" and "0 \<le> q"
  shows "\<exists>ts ys. euler_method ar f y0 t0 tf dt I_ext = Inr (ts, ys) \<and>
           length ts = nat \<lfloor>q\<rfloor> + 1 \<and> length ys = nat \<lfloor>q\<rfloor> + 1 \<and>
           ts ! 0 = t0 \<and> ys ! 0 = y0 \<and>
           (\<forall>k < nat \<lfloor>q\<rfloor>.
              ys ! (k + 1) = fl_add ar (ys ! k) (fl_mul ar (f (ys ! k) (ts ! k) I_ext) dt) \<and>
              ts ! (k + 1) = fl_add ar (ts ! k) dt)"
  using euler_method_run [OF assms(1), of f y0 I_ext] trunc_real_floor [OF assms(2)] by simp

theorem euler_method_forward_witness:
  "fl_truediv exact_arith (fl_sub exact_arith (Finite 1) (Finite 0)) (Finite (1/2)) = Inr (Finite 2) \<and>
   (0 :: real) \<le> 2 \<and>
   euler_method exact_arith (\<lambda>y t I. ex_add y I) (Finite 1) (Finite 0) (Finite 1) (Finite (1/2))
     (Finite 1)
   = Inr ([Finite 0, Finite (1/2), Finite 1], [Finite 1, Finite 2, Finite (7/2)])"
proof -
  have q: "fl_truediv exact_arith (fl_sub exact_arith (Finite 1) (Finite 0)) (Finite (1/2))
           = Inr (Finite 2)"
    by (simp add: exact_arith_def ex_sub_def overflow_def)
  have n: "py_range_len (trunc_real 2) = Suc (Suc 0)"
    by (simp add: trunc_real_def py_range_len_def)
  have e: "euler_method exact_arith (\<lambda>y t I. ex_add y I) (Finite 1) (Finite 0) (Finite 1)
             (Finite (1/2)) (Finite 1)
           = Inr ([Finite 0, Finite (1/2), Finite 1], [Finite 1, Finite 2, Finite (7/2)])"
    unfolding euler_method_def q using n
    by (simp add: exact_arith_def overflow_def)
  have z: "(0 :: real) \<le> 2" by simp
  from euler_method_forward [OF q z, of "\<lambda>y t I. ex_add y I" "Finite 1" "Finite 1"] q e
  show ?thesis by simp
qed

section \<open>Stimulus selection\<close>

text \<open>
  \<open>max\<close> returns the greatest entry, and the comprehension over \<open>enumerate\<close> keeps
  the positions holding it, in ascending order.
\<close>

lemma py_max_Max: "xs \<noteq> [] \<Longrightarrow> py_max xs = Inr (Max (set xs))"
proof (cases xs)
  case Nil
  assume "xs \<noteq> []" with Nil show ?thesis by simp
next
  case (Cons x ys)
  have m: "(\<lambda>m v. if v > m then v else m) = (\<lambda>m v::real. max v m)"
    by (auto simp add: fun_eq_iff max_def)
  have "foldl (\<lambda>m v. if v > m then v else m) x ys = fold max ys x"
    unfolding m by (simp add: foldl_conv_fold)
  then show ?thesis using Cons Max.set_eq_fold [of x ys] by simp
qed

lemma enumerate_nth: "enumerate 0 xs = map (\<lambda>i. (i, xs ! i)) [0..<length xs]"
  by (rule nth_equalityI) (simp_all add: nth_enumerate_eq)

lemma max_indices_of_filter:
  "max_indices_of xs m = filter (\<lambda>i. xs ! i = m) [0..<length xs]"
  by (simp add: max_indices_of_def enumerate_nth filter_map comp_def)

lemma max_indices_of_set:
  "set (max_indices_of xs m) = {i. i < length xs \<and> xs ! i = m}"
  by (auto simp add: max_indices_of_filter)

lemma max_indices_of_distinct: "distinct (max_indices_of xs m)"
  by (simp add: max_indices_of_filter)

lemma max_indices_of_sorted: "sorted (max_indices_of xs m)"
  by (simp add: max_indices_of_filter sorted_wrt_filter)

lemma max_indices_of_length:
  "length (max_indices_of xs m) = card {i. i < length xs \<and> xs ! i = m}"
  using distinct_card [OF max_indices_of_distinct, of xs m]
  by (simp add: max_indices_of_set)

lemma max_indices_nonempty:
  assumes "xs \<noteq> []"
  shows "{i. i < length xs \<and> xs ! i = Max (set xs)} \<noteq> {}"
proof -
  have "Max (set xs) \<in> set xs" using assms by (intro Max_in) simp_all
  then obtain i where "i < length xs" "xs ! i = Max (set xs)"
    by (auto simp add: in_set_conv_nth)
  then show ?thesis by blast
qed

lemma select_stimulus_tied:
  assumes "xs \<noteq> []" and "2 \<le> card {i. i < length xs \<and> xs ! i = Max (set xs)}"
  shows "select_stimulus xs = Inr (Indices (max_indices_of xs (Max (set xs))))"
    and "select_stimulus_no_winner xs = Inr None"
  using assms
  by (simp_all add: select_stimulus_def select_stimulus_no_winner_def py_max_Max
        max_indices_of_length Let_def)

lemma select_stimulus_unique:
  assumes "xs \<noteq> []" and "{i. i < length xs \<and> xs ! i = Max (set xs)} = {i}"
  shows "select_stimulus xs = Inr (Index i)"
    and "select_stimulus_no_winner xs = Inr (Some i)"
proof -
  let ?mi = "max_indices_of xs (Max (set xs))"
  have len: "length ?mi = 1" using assms(2) by (simp add: max_indices_of_length)
  have "set ?mi = {i}" using assms(2) by (simp add: max_indices_of_set)
  with len have mi: "?mi = [i]" by (cases ?mi) auto
  show "select_stimulus xs = Inr (Index i)"
    using assms(1) mi by (simp add: select_stimulus_def py_max_Max Let_def py_first_def)
  show "select_stimulus_no_winner xs = Inr (Some i)"
    using assms(1) mi by (simp add: select_stimulus_no_winner_def py_max_Max Let_def py_first_def)
qed

text \<open>
  Claim C4. On a non-empty stimulus list, let \<open>M\<close> be the set of positions that hold
  the maximum. When \<open>M\<close> has two or more members, \<open>select_stimulus\<close> returns the list
  of exactly the members of \<open>M\<close> (each once, ascending) and
  \<open>select_stimulus_no_winner\<close> returns \<open>None\<close>; when \<open>M\<close> is a single position,
  both return that position. \<open>M\<close> is never empty, so the two cases are all there are.
\<close>

theorem selectors_tie_policies:
  assumes "stimuli \<noteq> []"
  shows "(2 \<le> card {i. i < length stimuli \<and> stimuli ! i = Max (set stimuli)} \<longrightarrow>
            (\<exists>indices. select_stimulus stimuli = Inr (Indices indices) \<and>
               set indices = {i. i < length stimuli \<and> stimuli ! i = Max (set stimuli)} \<and>
               distinct indices \<and> sorted indices \<and> 2 \<le> length indices) \<and>
            select_stimulus_no_winner stimuli = Inr None) \<and>
         (\<forall>i. {i. i < length stimuli \<and> stimuli ! i = Max (set stimuli)} = {i} \<longrightarrow>
            select_stimulus stimuli = Inr (Index i) \<and>
            select_stimulus_no_winner stimuli = Inr (Some i)) \<and>
         1 \<le> card {i. i < length stimuli \<and> stimuli ! i = Max (set stimuli)}"
proof (intro conjI impI allI)
  let ?M = "{i. i < length stimuli \<and> stimuli ! i = Max (set stimuli)}"
  have fin: "finite ?M" by simp
  show "1 \<le> card ?M"
    using max_indices_nonempty [OF assms] fin by (simp add: Suc_le_eq card_gt_0_iff)
  {
    assume t: "2 \<le> card ?M"
    show "select_stimulus_no_winner stimuli = Inr None"
      using select_stimulus_tied(2) [OF assms t] .
    show "\<exists>indices. select_stimulus stimuli = Inr (Indices indices) \<and>
               set indices = ?M \<and> distinct indices \<and> sorted indices \<and> 2 \<le> length indices"
      using select_stimulus_tied(1) [OF assms t] t
      by (intro exI [of _ "max_indices_of stimuli (Max (set stimuli))"])
         (simp add: max_indices_of_set max_indices_of_distinct max_indices_of_sorted
            max_indices_of_length)
  }
  {
    fix i assume u: "?M = {i}"
    show "select_stimulus stimuli = Inr (Index i)"
      using select_stimulus_unique(1) [OF assms u] .
    show "select_stimulus_no_winner stimuli = Inr (Some i)"
      using select_stimulus_unique(2) [OF assms u] .
  }
qed

theorem selectors_tie_policies_witness:
  "[1/2, 9/10, 9/10 :: real] \<noteq> [] \<and>
   2 \<le> card {i. i < length [1/2, 9/10, 9/10 :: real] \<and>
                [1/2, 9/10, 9/10 :: real] ! i = Max (set [1/2, 9/10, 9/10 :: real])} \<and>
   select_stimulus [1/2, 9/10, 9/10] = Inr (Indices [1, 2]) \<and>
   select_stimulus_no_winner [1/2, 9/10, 9/10] = Inr None \<and>
   {i. i < length [1/2, 9/10, 1/10 :: real] \<and>
       [1/2, 9/10, 1/10 :: real] ! i = Max (set [1/2, 9/10, 1/10 :: real])} = {1} \<and>
   select_stimulus [1/2, 9/10, 1/10] = Inr (Index 1) \<and>
   select_stimulus_no_winner [1/2, 9/10, 1/10] = Inr (Some 1)"
proof -
  let ?a = "[1/2, 9/10, 9/10 :: real]" and ?b = "[1/2, 9/10, 1/10 :: real]"
  have ma: "Max (set ?a) = 9/10" and mb: "Max (set ?b) = 9/10" by simp_all
  have ia: "max_indices_of ?a (9/10) = [1, 2]" and ib: "max_indices_of ?b (9/10) = [1]"
    by (simp_all add: max_indices_of_def enumerate_simps)
  have Ma: "{i. i < length ?a \<and> ?a ! i = Max (set ?a)} = {1, 2}"
    using max_indices_of_set [of ?a "9/10"] unfolding ia ma by auto
  have Mb: "{i. i < length ?b \<and> ?b ! i = Max (set ?b)} = {1}"
    using max_indices_of_set [of ?b "9/10"] unfolding ib mb by auto
  have ea: "select_stimulus ?a = Inr (Indices [1, 2])"
    by (simp add: select_stimulus_def ia)
  show ?thesis
    using selectors_tie_policies [of ?a] selectors_tie_policies [of ?b] ea
    unfolding Ma Mb by simp
qed

section \<open>The motor scheme\<close>

lemma sum_list_shift:
  "sum_list (map (\<lambda>i. real i - c) indices) = sum_list (map real indices) - real (length indices) * c"
  by (induction indices) (simp_all add: algebra_simps)

lemma average_shift:
  assumes "indices \<noteq> []"
  shows "sum_list (map (\<lambda>i. real i - c) indices) / real (length indices)
         = sum_list (map real indices) / real (length indices) - c"
  using assms by (simp add: sum_list_shift diff_divide_distrib)

lemma stimuli_2_select: "select_stimulus stimuli_2 = Inr (Indices [3, 8])"
  by (simp add: select_stimulus_def stimuli_2_def max_indices_of_def enumerate_simps)

text \<open>
  Claim C5. The direction of a single index \<open>i\<close> among \<open>n\<close> stimuli is
  \<open>i - (n - 1) / 2\<close>; the direction of a non-empty list of tied indices is the average of
  \<open>i - (n - 1) / 2\<close> over the list, which is the average index minus \<open>(n - 1) / 2\<close>.
  \<open>motor_scheme\<close> returns the first on a unique maximum and the second, over the set of
  maximising positions, on a tie. The stimuli of the second simulation tie at positions
  3 and 8, and their direction is 1.
\<close>

theorem motor_scheme_encoding:
  "motor_direction (Index i) n = Inr (real i - (real n - 1) / 2) \<and>
   (indices \<noteq> [] \<longrightarrow>
      motor_direction (Indices indices) n
        = Inr (sum_list (map (\<lambda>i. real i - (real n - 1) / 2) indices) / real (length indices)) \<and>
      sum_list (map (\<lambda>i. real i - (real n - 1) / 2) indices) / real (length indices)
        = sum_list (map real indices) / real (length indices) - (real n - 1) / 2) \<and>
   (stimuli \<noteq> [] \<longrightarrow> {i. i < length stimuli \<and> stimuli ! i = Max (set stimuli)} = {i} \<longrightarrow>
      motor_scheme stimuli = Inr (real i - (real (length stimuli) - 1) / 2)) \<and>
   (stimuli \<noteq> [] \<longrightarrow> 2 \<le> card {i. i < length stimuli \<and> stimuli ! i = Max (set stimuli)} \<longrightarrow>
      motor_scheme stimuli
        = Inr ((\<Sum>i \<in> {i. i < length stimuli \<and> stimuli ! i = Max (set stimuli)}. real i)
                 / real (card {i. i < length stimuli \<and> stimuli ! i = Max (set stimuli)})
               - (real (length stimuli) - 1) / 2)) \<and>
   select_stimulus stimuli_2 = Inr (Indices [3, 8]) \<and>
   motor_scheme stimuli_2 = Inr 1"
proof (intro conjI impI)
  show "motor_direction (Index i) n = Inr (real i - (real n - 1) / 2)" by simp
  show "select_stimulus stimuli_2 = Inr (Indices [3, 8])" by (rule stimuli_2_select)
  show "motor_scheme stimuli_2 = Inr 1"
    by (simp add: motor_scheme_def stimuli_2_select py_truediv_def) (simp add: stimuli_2_def)
  {
    assume ne: "indices \<noteq> []"
    then show "motor_direction (Indices indices) n
        = Inr (sum_list (map (\<lambda>i. real i - (real n - 1) / 2) indices) / real (length indices))"
      by (simp add: py_truediv_def)
    show "sum_list (map (\<lambda>i. real i - (real n - 1) / 2) indices) / real (length indices)
        = sum_list (map real indices) / real (length indices) - (real n - 1) / 2"
      by (rule average_shift [OF ne])
  }
  {
    assume ne: "stimuli \<noteq> []"
      and u: "{i. i < length stimuli \<and> stimuli ! i = Max (set stimuli)} = {i}"
    show "motor_scheme stimuli = Inr (real i - (real (length stimuli) - 1) / 2)"
      by (simp add: motor_scheme_def select_stimulus_unique(1) [OF ne u])
  }
  {
    let ?M = "{i. i < length stimuli \<and> stimuli ! i = Max (set stimuli)}"
    let ?mi = "max_indices_of stimuli (Max (set stimuli))"
    assume ne: "stimuli \<noteq> []" and t: "2 \<le> card ?M"
    have len: "length ?mi = card ?M" by (rule max_indices_of_length)
    have "0 < length ?mi" using t unfolding len by linarith
    then have mi_ne: "?mi \<noteq> []" by simp
    have s: "sum_list (map real ?mi) = (\<Sum>i \<in> ?M. real i)"
      using sum_list_distinct_conv_sum_set [OF max_indices_of_distinct, of real stimuli "Max (set stimuli)"]
      by (simp add: max_indices_of_set)
    have "motor_scheme stimuli
        = Inr (sum_list (map (\<lambda>i. real i - (real (length stimuli) - 1) / 2) ?mi) / real (length ?mi))"
      using mi_ne by (simp add: motor_scheme_def select_stimulus_tied(1) [OF ne t] py_truediv_def)
    also have "\<dots> = Inr (sum_list (map real ?mi) / real (length ?mi) - (real (length stimuli) - 1) / 2)"
      by (simp only: average_shift [OF mi_ne])
    finally show "motor_scheme stimuli
        = Inr ((\<Sum>i \<in> ?M. real i) / real (card ?M) - (real (length stimuli) - 1) / 2)"
      by (simp only: s len)
  }
qed

theorem motor_scheme_encoding_witness:
  "[3, 8 :: nat] \<noteq> [] \<and>
   motor_direction (Indices [3, 8]) 10 = Inr 1 \<and>
   [1/2, 9/10, 1/10 :: real] \<noteq> [] \<and>
   motor_scheme [1/2, 9/10, 1/10] = Inr 0 \<and>
   [1/2, 9/10, 9/10 :: real] \<noteq> [] \<and>
   motor_scheme [1/2, 9/10, 9/10] = Inr (1/2)"
proof -
  let ?a = "[1/2, 9/10, 9/10 :: real]" and ?b = "[1/2, 9/10, 1/10 :: real]"
  have ma: "Max (set ?a) = 9/10" and mb: "Max (set ?b) = 9/10" by simp_all
  have ia: "max_indices_of ?a (9/10) = [1, 2]" and ib: "max_indices_of ?b (9/10) = [1]"
    by (simp_all add: max_indices_of_def enumerate_simps)
  have Ma: "{i. i < length ?a \<and> ?a ! i = Max (set ?a)} = {1, 2}"
    using max_indices_of_set [of ?a "9/10"] unfolding ia ma by auto
  have Mb: "{i. i < length ?b \<and> ?b ! i = Max (set ?b)} = {1}"
    using max_indices_of_set [of ?b "9/10"] unfolding ib mb by auto
  show ?thesis
    using motor_scheme_encoding [of 1 10 "[3, 8]" ?b]
          motor_scheme_encoding [of 0 10 "[3, 8]" ?a]
    unfolding Ma Mb by simp
qed

section \<open>Hysteresis\<close>

text \<open>
  The lists that the loop of \<open>metodoEulerHisteresis\<close> builds hold the voltage and the
  time of every state that the loop passes through.
\<close>

lemma fold_upt_Suc: "fold P [0..<Suc k] s = P k (fold P [0..<k] s)"
  by simp

lemma paso_fields:
  "tiempo (metodoEulerHisteresis_paso ar f dt est um i s) = fl_add ar (tiempo s) dt"
  "voltajes (metodoEulerHisteresis_paso ar f dt est um i s)
     = voltajes s @ [voltaje (metodoEulerHisteresis_paso ar f dt est um i s)]"
  "tiempos (metodoEulerHisteresis_paso ar f dt est um i s)
     = tiempos s @ [tiempo (metodoEulerHisteresis_paso ar f dt est um i s)]"
  by (simp_all add: metodoEulerHisteresis_paso_def Let_def)

lemma paso_driven:
  assumes "fl_less um (corrienteExterna_de ar est i)"
  shows "voltaje (metodoEulerHisteresis_paso ar f dt est um i s)
           = fl_add ar (voltaje s)
               (fl_mul ar (f (voltaje s) (tiempo s) (corrienteExterna_de ar est i)) dt)"
    and "voltajeAnterior (metodoEulerHisteresis_paso ar f dt est um i s)
           = voltaje (metodoEulerHisteresis_paso ar f dt est um i s)"
  using assms by (simp_all add: metodoEulerHisteresis_paso_def Let_def)

lemma paso_held:
  assumes "\<not> fl_less um (corrienteExterna_de ar est i)"
  shows "voltaje (metodoEulerHisteresis_paso ar f dt est um i s) = voltajeAnterior s"
    and "voltajeAnterior (metodoEulerHisteresis_paso ar f dt est um i s) = voltajeAnterior s"
  using assms by (simp_all add: metodoEulerHisteresis_paso_def Let_def)

lemma histeresis_lists:
  assumes "voltajes s0 = [voltaje s0]" and "tiempos s0 = [tiempo s0]"
  shows "voltajes (fold (metodoEulerHisteresis_paso ar f dt est um) [0..<n] s0)
           = map (\<lambda>k. voltaje (fold (metodoEulerHisteresis_paso ar f dt est um) [0..<k] s0))
               [0..<Suc n]"
    and "tiempos (fold (metodoEulerHisteresis_paso ar f dt est um) [0..<n] s0)
           = map (\<lambda>k. tiempo (fold (metodoEulerHisteresis_paso ar f dt est um) [0..<k] s0))
               [0..<Suc n]"
proof (induction n)
  case 0
  show "voltajes (fold (metodoEulerHisteresis_paso ar f dt est um) [0..<0] s0)
           = map (\<lambda>k. voltaje (fold (metodoEulerHisteresis_paso ar f dt est um) [0..<k] s0))
               [0..<Suc 0]"
    using assms(1) by simp
  show "tiempos (fold (metodoEulerHisteresis_paso ar f dt est um) [0..<0] s0)
           = map (\<lambda>k. tiempo (fold (metodoEulerHisteresis_paso ar f dt est um) [0..<k] s0))
               [0..<Suc 0]"
    using assms(2) by simp
next
  case (Suc n)
  show "voltajes (fold (metodoEulerHisteresis_paso ar f dt est um) [0..<Suc n] s0)
           = map (\<lambda>k. voltaje (fold (metodoEulerHisteresis_paso ar f dt est um) [0..<k] s0))
               [0..<Suc (Suc n)]"
    unfolding fold_upt_Suc paso_fields(2) Suc.IH(1)
    by (simp only: upt_Suc_append [of 0 "Suc n"] map_append) simp
  show "tiempos (fold (metodoEulerHisteresis_paso ar f dt est um) [0..<Suc n] s0)
           = map (\<lambda>k. tiempo (fold (metodoEulerHisteresis_paso ar f dt est um) [0..<k] s0))
               [0..<Suc (Suc n)]"
    unfolding fold_upt_Suc paso_fields(3) Suc.IH(2)
    by (simp only: upt_Suc_append [of 0 "Suc n"] map_append) simp
qed

lemma metodoEulerHisteresis_finite:
  assumes "fl_truediv ar (fl_sub ar tf t0) dt = Inr (Finite q)"
  shows "metodoEulerHisteresis ar f v0 t0 tf dt est um va0
         = (let s = fold (metodoEulerHisteresis_paso ar f dt est um) [0..<nat (trunc_real q)]
                      \<lparr>voltaje = v0, tiempo = t0, voltajeAnterior = va0,
                       voltajes = [v0], tiempos = [t0]\<rparr>
            in Inr (tiempos s, voltajes s))"
  using assms by (simp add: metodoEulerHisteresis_def py_range_len_def)

lemma metodoEulerHisteresis_not_finite:
  assumes "\<forall>q. fl_truediv ar (fl_sub ar tf t0) dt \<noteq> Inr (Finite q)"
  shows "\<exists>e. metodoEulerHisteresis ar f v0 t0 tf dt est um va0 = Inl e"
proof (cases "fl_truediv ar (fl_sub ar tf t0) dt")
  case (Inl e)
  then show ?thesis by (simp add: metodoEulerHisteresis_def)
next
  case (Inr d)
  with assms show ?thesis by (cases d) (simp_all add: metodoEulerHisteresis_def)
qed

lemma metodoEulerHisteresis_run:
  assumes "fl_truediv ar (fl_sub ar tf t0) dt = Inr (Finite q)"
  shows "\<exists>ts vs rs. metodoEulerHisteresis ar f v0 t0 tf dt est um va0 = Inr (ts, vs) \<and>
           length ts = nat (trunc_real q) + 1 \<and> length vs = nat (trunc_real q) + 1 \<and>
           length rs = nat (trunc_real q) + 1 \<and>
           ts ! 0 = t0 \<and> vs ! 0 = v0 \<and> rs ! 0 = va0 \<and>
           (\<forall>k < nat (trunc_real q).
              ts ! (k + 1) = fl_add ar (ts ! k) dt \<and>
              (fl_less um (corrienteExterna_de ar est k) \<longrightarrow>
                 vs ! (k + 1) = fl_add ar (vs ! k)
                    (fl_mul ar (f (vs ! k) (ts ! k) (corrienteExterna_de ar est k)) dt) \<and>
                 rs ! (k + 1) = vs ! (k + 1)) \<and>
              (\<not> fl_less um (corrienteExterna_de ar est k) \<longrightarrow>
                 vs ! (k + 1) = rs ! k \<and> rs ! (k + 1) = rs ! k))"
proof -
  let ?n = "nat (trunc_real q)"
  let ?P = "metodoEulerHisteresis_paso ar f dt est um"
  let ?s0 = "\<lparr>voltaje = v0, tiempo = t0, voltajeAnterior = va0, voltajes = [v0], tiempos = [t0]\<rparr>"
  let ?st = "\<lambda>k. fold ?P [0..<k] ?s0"
  let ?ts = "map (\<lambda>k. tiempo (?st k)) [0..<Suc ?n]"
  let ?vs = "map (\<lambda>k. voltaje (?st k)) [0..<Suc ?n]"
  let ?rs = "map (\<lambda>k. voltajeAnterior (?st k)) [0..<Suc ?n]"
  have lists: "voltajes (?st ?n) = ?vs" "tiempos (?st ?n) = ?ts"
    by (rule histeresis_lists, simp, simp)+
  have run: "metodoEulerHisteresis ar f v0 t0 tf dt est um va0 = Inr (?ts, ?vs)"
    unfolding metodoEulerHisteresis_finite [OF assms] Let_def lists by simp
  have nth: "?ts ! k = tiempo (?st k)" "?vs ! k = voltaje (?st k)"
    "?rs ! k = voltajeAnterior (?st k)" if "k < Suc ?n" for k
    using that by (simp_all only: nth_map_upt [of k "Suc ?n" 0] diff_zero add_0)
  have step: "?ts ! (k + 1) = fl_add ar (?ts ! k) dt \<and>
              (fl_less um (corrienteExterna_de ar est k) \<longrightarrow>
                 ?vs ! (k + 1) = fl_add ar (?vs ! k)
                    (fl_mul ar (f (?vs ! k) (?ts ! k) (corrienteExterna_de ar est k)) dt) \<and>
                 ?rs ! (k + 1) = ?vs ! (k + 1)) \<and>
              (\<not> fl_less um (corrienteExterna_de ar est k) \<longrightarrow>
                 ?vs ! (k + 1) = ?rs ! k \<and> ?rs ! (k + 1) = ?rs ! k)" if k: "k < ?n" for k
  proof -
    have k1: "k < Suc ?n" and k2: "k + 1 < Suc ?n" using k by simp_all
    have next_state: "?st (k + 1) = ?P k (?st k)" by simp
    show ?thesis
      unfolding nth [OF k1] nth [OF k2] next_state
      by (intro conjI impI) (simp_all add: paso_fields(1) paso_driven paso_held)
  qed
  have "length ?ts = ?n + 1" "length ?vs = ?n + 1" "length ?rs = ?n + 1" by simp_all
  moreover have "?ts ! 0 = t0" "?vs ! 0 = v0" "?rs ! 0 = va0"
    unfolding nth [OF zero_less_Suc] by simp_all
  ultimately show ?thesis using run step
    by (intro exI [of _ ?ts] exI [of _ ?vs] exI [of _ ?rs] conjI allI impI) (assumption | blast)+
qed

text \<open>
  Claim C6 speaks of every stimulus vector. On the empty list \<open>max\<close> raises
  ValueError, so \<open>hysteresis\<close> returns neither the maximum nor the previous output
  there.
\<close>

theorem hysteresis_empty_counterexample:
  "hysteresis [] previous_output_sim4 threshold_sim4 = Inl ValueError \<and>
   hysteresis [] previous_output_sim4 threshold_sim4 \<noteq> Inr previous_output_sim4"
  by (simp add: hysteresis_def)

lemma stimuli_4_max: "py_max stimuli_4 = Inr (73/100)"
  by (simp add: stimuli_4_def)

lemma fl_less_irrefl: "\<not> fl_less x x"
  by (cases x) simp_all

text \<open>
  Claim C6, for non-empty stimulus lists. \<open>hysteresis\<close> returns the maximum stimulus
  when it is strictly greater than the threshold and the previous output otherwise, so
  a maximum equal to the threshold holds the previous output; with the values of the
  fourth simulation (threshold 0.75, previous output 0.7, maximum stimulus 0.73) the
  result is 0.7. \<open>metodoEulerHisteresis\<close>, when its step count is defined, returns
  the times and voltages of a run in which a retained voltage \<open>rs ! k\<close> goes along with
  the voltage \<open>vs ! k\<close>: at every step the current (the double product of the stimulus
  and 10, or 0 past the end of the stimuli) is compared with the threshold; when it is
  strictly greater, the new voltage is the Euler step of the old one and becomes the
  retained voltage; otherwise, and so when the current equals the threshold, the new
  voltage is the retained one, which stays as it is.
\<close>

theorem hysteresis_strict:
  "(stimuli \<noteq> [] \<longrightarrow>
      hysteresis stimuli previous_output threshold
        = Inr (if threshold < Max (set stimuli) then Max (set stimuli) else previous_output)) \<and>
   (stimuli \<noteq> [] \<longrightarrow> Max (set stimuli) = threshold \<longrightarrow>
      hysteresis stimuli previous_output threshold = Inr previous_output) \<and>
   hysteresis stimuli_4 previous_output_sim4 threshold_sim4 = Inr (7/10) \<and>
   (fl_truediv ar (fl_sub ar tiempoFinal tiempoInicial) pasoTiempo = Inr (Finite q) \<longrightarrow>
      (\<exists>ts vs rs.
         metodoEulerHisteresis ar funcion voltajeInicial tiempoInicial tiempoFinal pasoTiempo
           estimulos umbral voltajeAnterior0 = Inr (ts, vs) \<and>
         length ts = nat (trunc_real q) + 1 \<and> length vs = nat (trunc_real q) + 1 \<and>
         length rs = nat (trunc_real q) + 1 \<and>
         ts ! 0 = tiempoInicial \<and> vs ! 0 = voltajeInicial \<and> rs ! 0 = voltajeAnterior0 \<and>
         (\<forall>k < nat (trunc_real q).
            ts ! (k + 1) = fl_add ar (ts ! k) pasoTiempo \<and>
            (fl_less umbral (corrienteExterna_de ar estimulos k) \<longrightarrow>
               vs ! (k + 1) = fl_add ar (vs ! k)
                  (fl_mul ar (funcion (vs ! k) (ts ! k) (corrienteExterna_de ar estimulos k))
                     pasoTiempo) \<and>
               rs ! (k + 1) = vs ! (k + 1)) \<and>
            (\<not> fl_less umbral (corrienteExterna_de ar estimulos k) \<longrightarrow>
               vs ! (k + 1) = rs ! k \<and> rs ! (k + 1) = rs ! k) \<and>
            (corrienteExterna_de ar estimulos k = umbral \<longrightarrow>
               vs ! (k + 1) = rs ! k \<and> rs ! (k + 1) = rs ! k))))"
proof (intro conjI impI)
  show "hysteresis stimuli_4 previous_output_sim4 threshold_sim4 = Inr (7/10)"
    by (simp add: hysteresis_def stimuli_4_max previous_output_sim4_def threshold_sim4_def)
  {
    assume ne: "stimuli \<noteq> []"
    then show "hysteresis stimuli previous_output threshold
        = Inr (if threshold < Max (set stimuli) then Max (set stimuli) else previous_output)"
      by (simp add: hysteresis_def py_max_Max)
    assume "Max (set stimuli) = threshold"
    with ne show "hysteresis stimuli previous_output threshold = Inr previous_output"
      by (simp add: hysteresis_def py_max_Max)
  }
  {
    let ?n = "nat (trunc_real q)"
    assume q: "fl_truediv ar (fl_sub ar tiempoFinal tiempoInicial) pasoTiempo = Inr (Finite q)"
    from metodoEulerHisteresis_run [OF q, of funcion voltajeInicial estimulos umbral voltajeAnterior0]
    obtain ts vs rs where run:
      "metodoEulerHisteresis ar funcion voltajeInicial tiempoInicial tiempoFinal pasoTiempo
           estimulos umbral voltajeAnterior0 = Inr (ts, vs)"
      "length ts = ?n + 1" "length vs = ?n + 1" "length rs = ?n + 1"
      "ts ! 0 = tiempoInicial" "vs ! 0 = voltajeInicial" "rs ! 0 = voltajeAnterior0"
      and step: "\<forall>k < ?n.
            ts ! (k + 1) = fl_add ar (ts ! k) pasoTiempo \<and>
            (fl_less umbral (corrienteExterna_de ar estimulos k) \<longrightarrow>
               vs ! (k + 1) = fl_add ar (vs ! k)
                  (fl_mul ar (funcion (vs ! k) (ts ! k) (corrienteExterna_de ar estimulos k))
                     pasoTiempo) \<and>
               rs ! (k + 1) = vs ! (k + 1)) \<and>
            (\<not> fl_less umbral (corrienteExterna_de ar estimulos k) \<longrightarrow>
               vs ! (k + 1) = rs ! k \<and> rs ! (k + 1) = rs ! k)"
      by blast
    have eq: "\<forall>k < ?n. corrienteExterna_de ar estimulos k = umbral \<longrightarrow>
               vs ! (k + 1) = rs ! k \<and> rs ! (k + 1) = rs ! k"
      using step fl_less_irrefl [of umbral] by metis
    show "\<exists>ts vs rs.
         metodoEulerHisteresis ar funcion voltajeInicial tiempoInicial tiempoFinal pasoTiempo
           estimulos umbral voltajeAnterior0 = Inr (ts, vs) \<and>
         length ts = ?n + 1 \<and> length vs = ?n + 1 \<and> length rs = ?n + 1 \<and>
         ts ! 0 = tiempoInicial \<and> vs ! 0 = voltajeInicial \<and> rs ! 0 = voltajeAnterior0 \<and>
         (\<forall>k < ?n.
            ts ! (k + 1) = fl_add ar (ts ! k) pasoTiempo \<and>
            (fl_less umbral (corrienteExterna_de ar estimulos k) \<longrightarrow>
               vs ! (k + 1) = fl_add ar (vs ! k)
                  (fl_mul ar (funcion (vs ! k) (ts ! k) (corrienteExterna_de ar estimulos k))
                     pasoTiempo) \<and>
               rs ! (k + 1) = vs ! (k + 1)) \<and>
            (\<not> fl_less umbral (corrienteExterna_de ar estimulos k) \<longrightarrow>
               vs ! (k + 1) = rs ! k \<and> rs ! (k + 1) = rs ! k) \<and>
            (corrienteExterna_de ar estimulos k = umbral \<longrightarrow>
               vs ! (k + 1) = rs ! k \<and> rs ! (k + 1) = rs ! k))"
      using run step eq
      by (intro exI [of _ ts] exI [of _ vs] exI [of _ rs] conjI allI impI) (assumption | blast)+
  }
qed

lemma histeresis_example:
  "metodoEulerHisteresis exact_arith (\<lambda>v t c. c) (Finite 0) (Finite 0) (Finite 2) (Finite 1)
     [Finite (1/2), Finite 1] (Finite 5) (Finite 3)
   = Inr ([Finite 0, Finite 1, Finite 2], [Finite 0, Finite 3, Finite 13])"
proof -
  have q: "fl_truediv exact_arith (fl_sub exact_arith (Finite 2) (Finite 0)) (Finite 1)
           = Inr (Finite 2)"
    by (simp add: exact_arith_def ex_sub_def overflow_def)
  have n: "[0..<nat (trunc_real 2)] = [0, Suc 0]"
    by (simp add: trunc_real_def upt_rec numeral_2_eq_2)
  have c: "corrienteExterna_de exact_arith [Finite (1/2), Finite 1] 0 = Finite 5"
    "corrienteExterna_de exact_arith [Finite (1/2), Finite 1] (Suc 0) = Finite 10"
    by (simp_all add: corrienteExterna_de_def exact_arith_def overflow_def)
  show ?thesis
    unfolding metodoEulerHisteresis_finite [OF q] n
    by (simp add: metodoEulerHisteresis_paso_def c Let_def) (simp add: exact_arith_def overflow_def)
qed

theorem hysteresis_strict_witness:
  "[3/4 :: real] \<noteq> [] \<and> Max (set [3/4 :: real]) = 3/4 \<and>
   hysteresis [3/4] (7/10) (3/4) = Inr (7/10) \<and>
   hysteresis [4/5] (7/10) (3/4) = Inr (4/5) \<and>
   fl_truediv exact_arith (fl_sub exact_arith (Finite 2) (Finite 0)) (Finite 1) = Inr (Finite 2) \<and>
   corrienteExterna_de exact_arith [Finite (1/2), Finite 1] 0 = Finite 5 \<and>
   fl_less (Finite 5) (corrienteExterna_de exact_arith [Finite (1/2), Finite 1] 1) \<and>
   metodoEulerHisteresis exact_arith (\<lambda>v t c. c) (Finite 0) (Finite 0) (Finite 2) (Finite 1)
     [Finite (1/2), Finite 1] (Finite 5) (Finite 3)
   = Inr ([Finite 0, Finite 1, Finite 2], [Finite 0, Finite 3, Finite 13])"
proof -
  have q: "fl_truediv exact_arith (fl_sub exact_arith (Finite 2) (Finite 0)) (Finite 1)
           = Inr (Finite 2)"
    by (simp add: exact_arith_def ex_sub_def overflow_def)
  have c: "corrienteExterna_de exact_arith [Finite (1/2), Finite 1] 0 = Finite 5"
    "corrienteExterna_de exact_arith [Finite (1/2), Finite 1] 1 = Finite 10"
    by (simp_all add: corrienteExterna_de_def exact_arith_def overflow_def)
  show ?thesis
    using hysteresis_strict [of "[3/4]" "7/10" "3/4" exact_arith "Finite 2" "Finite 0" "Finite 1" 2
            "\<lambda>v t c. c" "Finite 0" "[Finite (1/2), Finite 1]" "Finite 5" "Finite 3"]
          hysteresis_strict [of "[4/5]" "7/10" "3/4" exact_arith "Finite 2" "Finite 0" "Finite 1" 2
            "\<lambda>v t c. c" "Finite 0" "[Finite (1/2), Finite 1]" "Finite 5" "Finite 3"]
          q c histeresis_example
    by simp
qed

section \<open>The integrators do not validate their configuration\<close>

text \<open>
  Claim C7 has such calls rejected. A negative step size, or a final time before the
  initial one, is not rejected: both integrators return the one-point lists.
\<close>

theorem integrators_accept_bad_config_counterexample:
  "euler_method exact_arith (\<lambda>y t I. y) (Finite 1) (Finite 0) (Finite 100) (Finite (- 1)) (Finite 0)
     = Inr ([Finite 0], [Finite 1]) \<and>
   euler_method exact_arith (\<lambda>y t I. y) (Finite 1) (Finite 100) (Finite 0) (Finite 1) (Finite 0)
     = Inr ([Finite 100], [Finite 1]) \<and>
   metodoEulerHisteresis exact_arith (\<lambda>v t c. c) (Finite 1) (Finite 0) (Finite 100) (Finite (- 1))
     [Finite (1/2), Finite 1] (Finite (1/2)) (Finite 1)
     = Inr ([Finite 0], [Finite 1]) \<and>
   metodoEulerHisteresis exact_arith (\<lambda>v t c. c) (Finite 1) (Finite 100) (Finite 0) (Finite 1)
     [Finite (1/2), Finite 1] (Finite (1/2)) (Finite 1)
     = Inr ([Finite 100], [Finite 1])"
proof -
  have a: "fl_truediv exact_arith (fl_sub exact_arith (Finite 100) (Finite 0)) (Finite (- 1))
           = Inr (Finite (- 100))"
    and b: "fl_truediv exact_arith (fl_sub exact_arith (Finite 0) (Finite 100)) (Finite 1)
           = Inr (Finite (- 100))"
    by (simp_all add: exact_arith_def ex_sub_def overflow_def)
  have z: "nat (trunc_real (- 100)) = 0" by (simp add: trunc_real_def)
  show ?thesis
    unfolding euler_method_finite [OF a] euler_method_finite [OF b]
      metodoEulerHisteresis_finite [OF a] metodoEulerHisteresis_finite [OF b] z
    by simp
qed

text \<open>
  Claim C7, as the code has it. Neither integrator checks its step size or its time
  interval. When the quotient \<open>(tf - t0) / dt\<close> that the arithmetic computes is finite
  and below 1 (as for a negative step size with \<open>t0 < tf\<close>, and for a positive one with
  \<open>tf < t0\<close>), no step runs and both return the one-point lists of the initial time and
  the initial value. An exception of the step count, that of the division
  (ZeroDivisionError for a Python float divided by zero) or that of \<open>int\<close> on a
  quotient that is infinite or NaN, is passed on to the caller before any step runs.
\<close>

theorem integrators_unvalidated:
  "(fl_truediv ar (fl_sub ar tf t0) dt = Inr (Finite q) \<longrightarrow> q < 1 \<longrightarrow>
      euler_method ar f y0 t0 tf dt I_ext = Inr ([t0], [y0]) \<and>
      metodoEulerHisteresis ar f y0 t0 tf dt estimulos umbral anterior = Inr ([t0], [y0])) \<and>
   (fl_truediv ar (fl_sub ar tf t0) dt = Inl e \<longrightarrow>
      euler_method ar f y0 t0 tf dt I_ext = Inl e \<and>
      metodoEulerHisteresis ar f y0 t0 tf dt estimulos umbral anterior = Inl e) \<and>
   (fl_truediv ar (fl_sub ar tf t0) dt = Inr d \<longrightarrow> py_int d = Inl e \<longrightarrow>
      euler_method ar f y0 t0 tf dt I_ext = Inl e \<and>
      metodoEulerHisteresis ar f y0 t0 tf dt estimulos umbral anterior = Inl e)"
proof (intro conjI impI)
  {
    assume qf: "fl_truediv ar (fl_sub ar tf t0) dt = Inr (Finite q)" and q: "q < 1"
    have z: "nat (trunc_real q) = 0" using steps_zero [OF q] by (simp add: py_range_len_def)
    show "euler_method ar f y0 t0 tf dt I_ext = Inr ([t0], [y0])"
      unfolding euler_method_finite [OF qf] z by simp
    show "metodoEulerHisteresis ar f y0 t0 tf dt estimulos umbral anterior = Inr ([t0], [y0])"
      unfolding metodoEulerHisteresis_finite [OF qf] z by simp
  }
  {
    assume "fl_truediv ar (fl_sub ar tf t0) dt = Inl e"
    then show "euler_method ar f y0 t0 tf dt I_ext = Inl e"
      and "metodoEulerHisteresis ar f y0 t0 tf dt estimulos umbral anterior = Inl e"
      by (simp_all add: euler_method_def metodoEulerHisteresis_def)
  }
  {
    assume "fl_truediv ar (fl_sub ar tf t0) dt = Inr d" and "py_int d = Inl e"
    then show "euler_method ar f y0 t0 tf dt I_ext = Inl e"
      and "metodoEulerHisteresis ar f y0 t0 tf dt estimulos umbral anterior = Inl e"
      by (simp_all add: euler_method_def metodoEulerHisteresis_def)
  }
qed

theorem integrators_unvalidated_witness:
  "fl_truediv exact_arith (fl_sub exact_arith (Finite 100) (Finite 0)) (Finite (- 1))
     = Inr (Finite (- 100)) \<and> (- 100 :: real) < 1 \<and>
   euler_method exact_arith (\<lambda>y t I. y) (Finite 1) (Finite 0) (Finite 100) (Finite (- 1)) (Finite 0)
     = Inr ([Finite 0], [Finite 1]) \<and>
   metodoEulerHisteresis exact_arith (\<lambda>y t I. y) (Finite 1) (Finite 0) (Finite 100) (Finite (- 1))
     [Finite (1/2)] (Finite (1/2)) (Finite 1)
     = Inr ([Finite 0], [Finite 1]) \<and>
   fl_truediv exact_arith (fl_sub exact_arith (Finite 100) (Finite 0)) (Finite 0)
     = Inl ZeroDivisionError \<and>
   euler_method exact_arith (\<lambda>y t I. y) (Finite 1) (Finite 0) (Finite 100) (Finite 0) (Finite 0)
     = Inl ZeroDivisionError \<and>
   fl_truediv exact_arith (fl_sub exact_arith (Finite (2 ^ 1023)) (Finite 0)) (Finite (1/4))
     = Inr PosInf \<and> py_int PosInf = Inl OverflowError \<and>
   metodoEulerHisteresis exact_arith (\<lambda>y t I. y) (Finite 1) (Finite 0) (Finite (2 ^ 1023))
     (Finite (1/4)) [Finite (1/2)] (Finite (1/2)) (Finite 1)
     = Inl OverflowError"
proof -
  have a: "fl_truediv exact_arith (fl_sub exact_arith (Finite 100) (Finite 0)) (Finite (- 1))
           = Inr (Finite (- 100))"
    and b: "fl_truediv exact_arith (fl_sub exact_arith (Finite 100) (Finite 0)) (Finite 0)
           = Inl ZeroDivisionError"
    and c: "fl_truediv exact_arith (fl_sub exact_arith (Finite (2 ^ 1023)) (Finite 0)) (Finite (1/4))
           = Inr PosInf"
    by (simp_all add: exact_arith_def ex_sub_def overflow_def)
  show ?thesis
    using integrators_unvalidated [of exact_arith "Finite 100" "Finite 0" "Finite (- 1)" "- 100"
            "\<lambda>y t I. y" "Finite 1" "Finite 0" "[Finite (1/2)]" "Finite (1/2)" "Finite 1"]
          integrators_unvalidated [of exact_arith "Finite 100" "Finite 0" "Finite 0" 0
            "\<lambda>y t I. y" "Finite 1" "Finite 0" "[Finite (1/2)]" "Finite (1/2)" "Finite 1"
            ZeroDivisionError]
          integrators_unvalidated [of exact_arith "Finite (2 ^ 1023)" "Finite 0" "Finite (1/4)" 0
            "\<lambda>y t I. y" "Finite 1" "Finite 0" "[Finite (1/2)]" "Finite (1/2)" "Finite 1"
            OverflowError PosInf]
          a b c
    by simp
qed

section \<open>Hebbian training\<close>

text \<open>
  Adding the outer products keeps the shape of the matrix and adds \<open>p ! i * p ! j\<close> to
  the entry \<open>(i, j)\<close>.
\<close>

lemma np_outer_dims:
  "length (np_outer p q) = length p" "i < length p \<Longrightarrow> length (np_outer p q ! i) = length q"
  by (simp_all add: np_outer_def)

lemma np_outer_nth:
  "i < length p \<Longrightarrow> j < length q \<Longrightarrow> np_outer p q ! i ! j = p ! i * q ! j"
  by (simp add: np_outer_def)

lemma mat_iadd_dims:
  assumes "length W = L" and "length M = L"
    and "\<forall>i<L. length (W ! i) = L" and "\<forall>i<L. length (M ! i) = L"
  shows "length (mat_iadd W M) = L" and "\<forall>i<L. length (mat_iadd W M ! i) = L"
  using assms by (simp_all add: mat_iadd_def)

lemma mat_iadd_nth:
  assumes "length W = L" and "length M = L"
    and "\<forall>i<L. length (W ! i) = L" and "\<forall>i<L. length (M ! i) = L"
    and "i < L" and "j < L"
  shows "mat_iadd W M ! i ! j = W ! i ! j + real_of_int (M ! i ! j)"
  using assms by (simp add: mat_iadd_def)

lemma hebb_sum:
  assumes "\<forall>p \<in> set patterns. length p = L"
    and "length W = L" and "\<forall>i<L. length (W ! i) = L"
  shows "length (fold (\<lambda>p W. mat_iadd W (np_outer p p)) patterns W) = L \<and>
         (\<forall>i<L. length (fold (\<lambda>p W. mat_iadd W (np_outer p p)) patterns W ! i) = L) \<and>
         (\<forall>i<L. \<forall>j<L. fold (\<lambda>p W. mat_iadd W (np_outer p p)) patterns W ! i ! j
             = W ! i ! j + (\<Sum>p\<leftarrow>patterns. real_of_int (p ! i * p ! j)))"
  using assms
proof (induction patterns arbitrary: W)
  case Nil
  then show ?case by simp
next
  case (Cons p ps)
  let ?W = "mat_iadd W (np_outer p p)"
  have p: "length p = L" and ps: "\<forall>q \<in> set ps. length q = L" using Cons.prems(1) by simp_all
  have od: "length (np_outer p p) = L" "\<forall>i<L. length (np_outer p p ! i) = L"
    using p by (simp_all add: np_outer_dims)
  have d: "length ?W = L" "\<forall>i<L. length (?W ! i) = L"
    using mat_iadd_dims [OF Cons.prems(2) od(1) Cons.prems(3) od(2)] by simp_all
  have e: "?W ! i ! j = W ! i ! j + real_of_int (p ! i * p ! j)" if "i < L" "j < L" for i j
    using mat_iadd_nth [OF Cons.prems(2) od(1) Cons.prems(3) od(2) that] that p
    by (simp add: np_outer_nth)
  from Cons.IH [OF ps d] e show ?case by (simp add: add.assoc)
qed

lemma fill_diagonal0_map: "fill_diagonal0 W = map (\<lambda>i. (W ! i)[i := 0]) [0..<length W]"
  by (simp add: fill_diagonal0_def enumerate_nth)

lemma train_hopfield_entries:
  assumes "patterns \<noteq> []" and "\<forall>p \<in> set patterns. length p = L"
  shows "\<exists>W. train_hopfield patterns normalization_factor = Inr W \<and> length W = L \<and>
           (\<forall>i<L. length (W ! i) = L) \<and>
           (\<forall>i<L. \<forall>j<L. W ! i ! j
               = (if i = j then 0 else (\<Sum>p\<leftarrow>patterns. real_of_int (p ! i * p ! j)) / real L)
                 * normalization_factor)"
proof -
  let ?S = "fold (\<lambda>p W. mat_iadd W (np_outer p p)) patterns (np_zeros L L)"
  let ?D = "map (map (\<lambda>w. w / real L)) ?S"
  let ?W = "map (map (\<lambda>w. w * normalization_factor)) (fill_diagonal0 ?D)"
  have sh: "shape1 patterns = Inr L"
    using assms by (cases patterns) (simp_all add: shape1_def)
  have t: "train_hopfield patterns normalization_factor = Inr ?W"
    by (simp add: train_hopfield_def sh Let_def)
  have z: "length (np_zeros L L) = L" "\<forall>i<L. length (np_zeros L L ! i) = L"
    "\<forall>i<L. \<forall>j<L. np_zeros L L ! i ! j = 0"
    by (simp_all add: np_zeros_def)
  from hebb_sum [OF assms(2) z(1,2)]
  have S: "length ?S = L" "\<forall>i<L. length (?S ! i) = L"
    "\<forall>i<L. \<forall>j<L. ?S ! i ! j = (\<Sum>p\<leftarrow>patterns. real_of_int (p ! i * p ! j))"
    using z(3) by simp_all
  have len: "length ?W = L" using S(1) by (simp add: fill_diagonal0_map)
  have rows: "\<forall>i<L. length (?W ! i) = L" using S(1,2) by (simp add: fill_diagonal0_map)
  have ent: "\<forall>i<L. \<forall>j<L. ?W ! i ! j
      = (if i = j then 0 else (\<Sum>p\<leftarrow>patterns. real_of_int (p ! i * p ! j)) / real L)
        * normalization_factor"
  proof (intro allI impI)
    fix i j assume ij: "i < L" "j < L"
    have "?W ! i ! j = ((?D ! i)[i := 0]) ! j * normalization_factor"
      using ij S(1,2) by (simp add: fill_diagonal0_map)
    also have "((?D ! i)[i := 0]) ! j = (if i = j then 0 else ?S ! i ! j / real L)"
      using ij S(1,2) by (simp add: nth_list_update)
    finally show "?W ! i ! j
      = (if i = j then 0 else (\<Sum>p\<leftarrow>patterns. real_of_int (p ! i * p ! j)) / real L)
        * normalization_factor"
      using S(3) ij by simp
  qed
  from t len rows ent show ?thesis by blast
qed

text \<open>
  Claim C1. For a non-empty batch of patterns of common length \<open>L\<close> and any
  normalisation factor, \<open>train_hopfield\<close> returns an \<open>L\<close> by \<open>L\<close> matrix whose entry
  \<open>(i, j)\<close> is the sum over the patterns of \<open>p ! i * p ! j\<close>, divided by \<open>L\<close>, replaced
  by 0 on the diagonal, and then multiplied by the factor. The matrix is symmetric and
  its diagonal is zero. (Bipolar entries are a special case: the patterns may hold any
  integers.)
\<close>

theorem train_hopfield_hebbian:
  assumes "patterns \<noteq> []" and "\<forall>p \<in> set patterns. length p = L"
  shows "\<exists>W. train_hopfield patterns normalization_factor = Inr W \<and> length W = L \<and>
           (\<forall>i<L. length (W ! i) = L) \<and>
           (\<forall>i<L. \<forall>j<L. W ! i ! j
               = (if i = j then 0 else (\<Sum>p\<leftarrow>patterns. real_of_int (p ! i * p ! j)) / real L)
                 * normalization_factor) \<and>
           (\<forall>i<L. \<forall>j<L. W ! i ! j = W ! j ! i) \<and>
           (\<forall>i<L. W ! i ! i = 0)"
proof -
  obtain W where W: "train_hopfield patterns normalization_factor = Inr W" "length W = L"
      "\<forall>i<L. length (W ! i) = L"
    and ent: "\<forall>i<L. \<forall>j<L. W ! i ! j
               = (if i = j then 0 else (\<Sum>p\<leftarrow>patterns. real_of_int (p ! i * p ! j)) / real L)
                 * normalization_factor"
    using train_hopfield_entries [OF assms] by blast
  have sym: "\<forall>i<L. \<forall>j<L. W ! i ! j = W ! j ! i"
  proof (intro allI impI)
    fix i j assume "i < L" "j < L"
    moreover have "(\<Sum>p\<leftarrow>patterns. real_of_int (p ! i * p ! j))
        = (\<Sum>p\<leftarrow>patterns. real_of_int (p ! j * p ! i))"
      by (simp add: mult.commute)
    ultimately show "W ! i ! j = W ! j ! i" using ent by auto
  qed
  have diag: "\<forall>i<L. W ! i ! i = 0" using ent by simp
  from W ent sym diag show ?thesis by blast
qed

lemma train_example:
  "train_hopfield [[1, - 1, 1], [1, 1, 1]] (1/20) = Inr [[0, 0, 1/30], [0, 0, 0], [1/30, 0, 0]]"
  by (simp add: train_hopfield_def shape1_def np_zeros_def np_outer_def mat_iadd_def
        fill_diagonal0_def enumerate_simps numeral_3_eq_3 Let_def)

theorem train_hopfield_hebbian_witness:
  "[[1, - 1, 1], [1, 1, 1 :: int]] \<noteq> [] \<and>
   length [1, - 1, 1 :: int] = 3 \<and> length [1, 1, 1 :: int] = 3 \<and>
   train_hopfield [[1, - 1, 1], [1, 1, 1]] (1/20) = Inr [[0, 0, 1/30], [0, 0, 0], [1/30, 0, 0]]"
  using train_hopfield_hebbian [of "[[1, - 1, 1], [1, 1, 1]]" 3 "1/20"] train_example
  by simp

section \<open>Asynchronous recall\<close>

text \<open>
  A fold of single-entry assignments over the indices \<open>0, \<dots>, k - 1\<close> keeps the
  length, has not yet touched the entries from position \<open>k\<close> on, and never again
  touches the entries it has assigned.
\<close>

lemma fold_update_length:
  "length (fold (\<lambda>i x. x[i := g i x]) is x) = length x"
  by (induction "is" arbitrary: x) simp_all

lemma fold_update_drop:
  "drop k (fold (\<lambda>i x. x[i := g i x]) [0..<k] x) = drop k x"
proof (induction k)
  case 0
  then show ?case by simp
next
  case (Suc k)
  let ?y = "fold (\<lambda>i x. x[i := g i x]) [0..<k] x"
  have "drop (Suc k) (?y[k := g k ?y]) = drop (Suc k) ?y" by simp
  also have "\<dots> = drop 1 (drop k ?y)" by simp
  also have "\<dots> = drop 1 (drop k x)" by (simp only: Suc.IH)
  finally show ?case by simp
qed

lemma fold_update_take:
  "k \<le> m \<Longrightarrow> take k (fold (\<lambda>i x. x[i := g i x]) [0..<m] x)
     = take k (fold (\<lambda>i x. x[i := g i x]) [0..<k] x)"
proof (induction m)
  case 0
  then show ?case by simp
next
  case (Suc m)
  show ?case
  proof (cases "k = Suc m")
    case True
    then show ?thesis by simp
  next
    case False
    with Suc.prems have "k \<le> m" by simp
    with Suc.IH show ?thesis by simp
  qed
qed

lemma async_sweep_length: "length (async_sweep dot W x) = length x"
  by (simp add: async_sweep_def fold_update_length)

lemma async_sweep_in_place: "in_place_sweep dot W x (async_sweep dot W x)"
  unfolding in_place_sweep_def
proof (intro conjI ballI)
  show "length (async_sweep dot W x) = length x" by (rule async_sweep_length)
next
  fix i assume "i \<in> {0..<length x}"
  then have i: "i < length x" by simp
  let ?g = "\<lambda>i x. np_sign (dot (W ! i) x)"
  let ?st = "\<lambda>k. fold (\<lambda>i x. x[i := ?g i x]) [0..<k] x"
  have fin: "async_sweep dot W x = ?st (length x)" by (simp add: async_sweep_def)
  have len: "length (?st k) = length x" for k by (rule fold_update_length)
  have before: "?st i = take i (?st i) @ drop i (?st i)" by simp
  have "take i (?st (length x)) = take i (?st i)"
    using i by (intro fold_update_take) simp
  moreover have "drop i (?st i) = drop i x" by (rule fold_update_drop)
  ultimately have sti: "?st i = take i (async_sweep dot W x) @ drop i x"
    using before fin by simp
  have "async_sweep dot W x ! i = take (Suc i) (?st (length x)) ! i" using fin by simp
  also have "take (Suc i) (?st (length x)) = take (Suc i) (?st (Suc i))"
    using i by (intro fold_update_take) simp
  also have "take (Suc i) (?st (Suc i)) ! i = ?st (Suc i) ! i" by simp
  also have "?st (Suc i) = (?st i)[i := ?g i (?st i)]" by simp
  also have "\<dots> ! i = ?g i (?st i)" using i len [of i] by simp
  finally show "async_sweep dot W x ! i
      = np_sign (dot (W ! i) (take i (async_sweep dot W x) @ drop i x))"
    using sti by simp
qed

lemma in_place_sweep_unique:
  assumes "in_place_sweep dot W x y" and "in_place_sweep dot W x z"
  shows "y = z"
proof (rule nth_equalityI)
  show "length y = length z" using assms by (simp add: in_place_sweep_def)
next
  fix i assume "i < length y"
  then have "i < length x" using assms(1) by (simp add: in_place_sweep_def)
  then show "y ! i = z ! i"
  proof (induction i rule: less_induct)
    case (less i)
    have ly: "length y = length x" and lz: "length z = length x"
      using assms by (simp_all add: in_place_sweep_def)
    have "j < i \<longrightarrow> y ! j = z ! j" for j
      using less.IH [of j] less.prems by simp
    then have "take i y = take i z"
      using less.prems ly lz by (intro nth_take_lemma) simp_all
    moreover have "y ! i = np_sign (dot (W ! i) (take i y @ drop i x))"
      and "z ! i = np_sign (dot (W ! i) (take i z @ drop i x))"
      using assms less.prems by (simp_all add: in_place_sweep_def)
    ultimately show ?case by simp
  qed
qed

text \<open>
  On a matrix with a row of the right length for every index, the loops raise nothing
  and change only the array they are given, which then holds the swept entries.
\<close>

lemma hopfield_step_loop_run:
  assumes "a < length h"
    and "\<forall>i \<in> set is. i < length W \<and> length (W ! i) = length (h ! a)"
  shows "hopfield_step_loop dot W a is h
         = (None, h[a := fold (\<lambda>i x. x[i := np_sign (dot (W ! i) x)]) is (h ! a)])"
  using assms
proof (induction "is" arbitrary: h)
  case Nil
  then show ?case by simp
next
  case (Cons i "is")
  let ?x = "h ! a"
  let ?h = "h[a := ?x[i := np_sign (dot (W ! i) ?x)]]"
  have i: "i < length W" "length (W ! i) = length ?x" using Cons.prems(2) by simp_all
  have a: "a < length ?h" using Cons.prems(1) by simp
  have ha: "?h ! a = ?x[i := np_sign (dot (W ! i) ?x)]" using Cons.prems(1) by simp
  have r: "\<forall>j \<in> set is. j < length W \<and> length (W ! j) = length (?h ! a)"
    using Cons.prems(2) ha by simp
  have "hopfield_step_loop dot W a (i # is) h = hopfield_step_loop dot W a is ?h"
    using i by (simp add: np_dot_def)
  also have "\<dots> = (None, ?h[a := fold (\<lambda>i x. x[i := np_sign (dot (W ! i) x)]) is (?h ! a)])"
    by (rule Cons.IH [OF a r])
  finally show ?case by (simp add: ha)
qed

lemma hopfield_step_async_run:
  assumes "a < length h" and "length (h ! a) \<le> length W"
    and "\<forall>i < length (h ! a). length (W ! i) = length (h ! a)"
  shows "hopfield_step_async dot a W h = (Inr a, h[a := async_sweep dot W (h ! a)])"
proof -
  have "\<forall>i \<in> set [0..<length (h ! a)]. i < length W \<and> length (W ! i) = length (h ! a)"
    using assms(2,3) by simp
  from hopfield_step_loop_run [OF assms(1) this]
  show ?thesis by (simp add: hopfield_step_async_def async_sweep_def)
qed

lemma recall_loop_run:
  assumes "a < length h" and "length (h ! a) \<le> length W"
    and "\<forall>i < length (h ! a). length (W ! i) = length (h ! a)"
  shows "recall_loop dot k a W h = (Inr a, h[a := (async_sweep dot W ^^ k) (h ! a)])"
  using assms
proof (induction k arbitrary: h)
  case 0
  then show ?case by simp
next
  case (Suc k)
  let ?h = "h[a := async_sweep dot W (h ! a)]"
  have ha: "?h ! a = async_sweep dot W (h ! a)" using Suc.prems(1) by simp
  have a: "a < length ?h" using Suc.prems(1) by simp
  have l: "length (?h ! a) = length (h ! a)" by (simp add: ha async_sweep_length)
  have "recall_loop dot (Suc k) a W h = recall_loop dot k a W ?h"
    by (simp add: hopfield_step_async_run [OF Suc.prems])
  also have "\<dots> = (Inr a, ?h[a := (async_sweep dot W ^^ k) (?h ! a)])"
    using Suc.prems(2,3) by (intro Suc.IH [OF a]) (simp_all only: l)
  finally show ?case by (simp add: ha funpow_swap1)
qed

text \<open>
  Claim C2. Whatever double the dot product returns, for a weight matrix of dimension
  \<open>L\<close> and a pattern array of length \<open>L\<close>, \<open>recall_async\<close> raises nothing and returns a new array that holds the pattern after
  exactly \<open>steps\<close> sweeps (none for a negative count). A sweep assigns the entries in
  ascending order, and its result is the one array \<open>y\<close> in which every \<open>y ! i\<close> is the
  sign of the dot product of row \<open>i\<close> with the entries of \<open>y\<close> before position \<open>i\<close>
  followed by the entries of the starting array from position \<open>i\<close> on: the entries
  already assigned in the same sweep are read with their new values.
\<close>

theorem recall_async_sweeps:
  assumes "length W = L" and "\<forall>row \<in> set W. length row = L"
    and "pattern < length h" and "length (h ! pattern) = L"
  shows "recall_async dot pattern W steps h
           = (Inr (length h), h @ [(async_sweep dot W ^^ nat steps) (h ! pattern)]) \<and>
         (\<forall>x y. in_place_sweep dot W x y \<longleftrightarrow> y = async_sweep dot W x)"
proof
  let ?h = "h @ [h ! pattern]"
  have a: "length h < length ?h" by simp
  have x: "?h ! length h = h ! pattern" by simp
  have w: "length (?h ! length h) \<le> length W" using assms(1,4) by simp
  have rows: "\<forall>i < length (?h ! length h). length (W ! i) = length (?h ! length h)"
    using assms(1,2,4) by simp
  have "recall_async dot pattern W steps h = recall_loop dot (nat steps) (length h) W ?h"
    by (simp add: recall_async_def np_copy_def py_range_len_def)
  also have "\<dots> = (Inr (length h), ?h[length h := (async_sweep dot W ^^ nat steps) (?h ! length h)])"
    by (rule recall_loop_run [OF a w rows])
  finally show "recall_async dot pattern W steps h
           = (Inr (length h), h @ [(async_sweep dot W ^^ nat steps) (h ! pattern)])"
    by simp
  show "\<forall>x y. in_place_sweep dot W x y \<longleftrightarrow> y = async_sweep dot W x"
    using async_sweep_in_place in_place_sweep_unique by blast
qed

lemma sweep_example:
  "async_sweep dot_sum [[0, - 1], [- 1, 0]] [1, 1] = [- 1, 1]"
  "async_sweep dot_sum [[0, - 1], [- 1, 0]] [- 1, 1] = [- 1, 1]"
  by (simp_all add: async_sweep_def dot_sum_def np_sign_def upt_rec numeral_2_eq_2)

theorem recall_async_sweeps_witness:
  "length [[0, - 1], [- 1, 0 :: real]] = 2 \<and>
   length [0, - 1 :: real] = 2 \<and> length [- 1, 0 :: real] = 2 \<and>
   (0 :: nat) < length [[1, 1 :: int]] \<and> length ([[1, 1 :: int]] ! 0) = 2 \<and>
   recall_async dot_sum 0 [[0, - 1], [- 1, 0]] 2 [[1, 1]] = (Inr 1, [[1, 1], [- 1, 1]]) \<and>
   in_place_sweep dot_sum [[0, - 1], [- 1, 0]] [1, 1] [- 1, 1] \<and>
   synchronous_sweep dot_sum [[0, - 1], [- 1, 0]] [1, 1] = [- 1, - 1]"
proof -
  have s: "synchronous_sweep dot_sum [[0, - 1], [- 1, 0]] [1, 1] = [- 1, - 1]"
    by (simp add: synchronous_sweep_def dot_sum_def np_sign_def upt_rec numeral_2_eq_2)
  have p: "(async_sweep dot_sum [[0, - 1], [- 1, 0]] ^^ nat 2) [1, 1] = [- 1, 1]"
    by (simp add: numeral_2_eq_2 sweep_example)
  show ?thesis
    using recall_async_sweeps [where W = "[[0, - 1], [- 1, 0]]" and L = 2 and pattern = 0
            and h = "[[1, 1]]" and dot = dot_sum and steps = 2] s p sweep_example(1)
    by simp
qed

section \<open>The sign of zero\<close>

text \<open>
  Claim C8. The weights trained on the bipolar patterns \<open>[1, -1, 1]\<close> and
  \<open>[1, 1, 1]\<close> have a zero middle row. On the stored pattern \<open>[1, 1, 1]\<close> the dot
  product for neuron 1 is exactly zero when that neuron is updated, its sign is 0, and
  0 is written: one sweep returns \<open>[1, 0, 1]\<close>, which has an entry that is neither
  \<open>-1\<close> nor \<open>1\<close>. Every row of these weights has at most one entry that is not
  zero, so the double dot product is the plain sum \<open>dot_sum\<close> here.
\<close>

theorem sign_zero_corrupts:
  "train_hopfield [[1, - 1, 1], [1, 1, 1]] (1/20) = Inr [[0, 0, 1/30], [0, 0, 0], [1/30, 0, 0]] \<and>
   np_dot dot_sum ([[0, 0, 1/30], [0, 0, 0], [1/30, 0, 0]] ! 1) [1, 1, 1] = Inr 0 \<and>
   np_sign 0 = 0 \<and>
   hopfield_step_async dot_sum 0 [[0, 0, 1/30], [0, 0, 0], [1/30, 0, 0]] [[1, 1, 1]]
     = (Inr 0, [[1, 0, 1]]) \<and>
   recall_async dot_sum 0 [[0, 0, 1/30], [0, 0, 0], [1/30, 0, 0]] 1 [[1, 1, 1]]
     = (Inr 1, [[1, 1, 1], [1, 0, 1]]) \<and>
   (0 :: int) \<notin> {- 1, 1}"
proof -
  let ?W = "[[0, 0, 1/30], [0, 0, 0], [1/30, 0, 0 :: real]]"
  have sw: "async_sweep dot_sum ?W [1, 1, 1] = [1, 0, 1]"
    by (simp add: async_sweep_def dot_sum_def np_sign_def upt_rec numeral_3_eq_3)
  have st: "hopfield_step_async dot_sum 0 ?W [[1, 1, 1]] = (Inr 0, [[1, 0, 1]])"
    using hopfield_step_async_run [where a = 0 and h = "[[1, 1, 1]]" and W = ?W and dot = dot_sum] sw
    by (simp add: nth_Cons' )
  have rl: "recall_loop dot_sum (Suc 0) 1 ?W [[1, 1, 1], [1, 1, 1]] = (Inr 1, [[1, 1, 1], [1, 0, 1]])"
    using recall_loop_run [where a = 1 and h = "[[1, 1, 1], [1, 1, 1]]" and W = ?W and k = "Suc 0"
            and dot = dot_sum] sw
    by (simp add: nth_Cons')
  have rc: "recall_async dot_sum 0 ?W 1 [[1, 1, 1]] = (Inr 1, [[1, 1, 1], [1, 0, 1]])"
    using rl by (simp add: recall_async_def np_copy_def py_range_len_def)
  have d: "np_dot dot_sum (?W ! 1) [1, 1, 1] = Inr 0"
    by (simp add: np_dot_def dot_sum_def)
  show ?thesis using train_example st rc d by (simp add: np_sign_def)
qed

section \<open>Recall leaves its argument as it was\<close>

text \<open>
  The loops change no array but the one they are given, whether they end normally or
  with an exception, and they return the address they were given.
\<close>

lemma hopfield_step_loop_frame:
  "hopfield_step_loop dot W a is h = (r, h') \<Longrightarrow>
     length h' = length h \<and> (\<forall>b. b \<noteq> a \<longrightarrow> h' ! b = h ! b)"
proof (induction "is" arbitrary: h)
  case Nil
  then show ?case by simp
next
  case (Cons i "is")
  show ?case
  proof (cases "i \<ge> length W")
    case True
    with Cons.prems show ?thesis by simp
  next
    case False
    show ?thesis
    proof (cases "np_dot dot (W ! i) (h ! a)")
      case (Inl e)
      with False Cons.prems show ?thesis by simp
    next
      case (Inr d)
      let ?h = "h[a := (h ! a)[i := np_sign d]]"
      have "hopfield_step_loop dot W a is ?h = (r, h')" using False Inr Cons.prems by simp
      from Cons.IH [OF this] show ?thesis by simp
    qed
  qed
qed

lemma hopfield_step_async_frame:
  assumes "hopfield_step_async dot a W h = (r, h')"
  shows "length h' = length h \<and> (\<forall>b. b \<noteq> a \<longrightarrow> h' ! b = h ! b) \<and> (\<forall>x. r = Inr x \<longrightarrow> x = a)"
proof -
  obtain e h1 where l: "hopfield_step_loop dot W a [0..<length (h ! a)] h = (e, h1)"
    by (cases "hopfield_step_loop dot W a [0..<length (h ! a)] h") blast
  have "h' = h1" and "\<forall>x. r = Inr x \<longrightarrow> x = a"
    using assms l by (auto simp add: hopfield_step_async_def split: option.splits)
  with hopfield_step_loop_frame [OF l] show ?thesis by simp
qed

lemma recall_loop_frame:
  "recall_loop dot k a W h = (r, h') \<Longrightarrow>
     length h' = length h \<and> (\<forall>b. b \<noteq> a \<longrightarrow> h' ! b = h ! b) \<and> (\<forall>x. r = Inr x \<longrightarrow> x = a)"
proof (induction k arbitrary: h)
  case 0
  then show ?case by auto
next
  case (Suc k)
  obtain r1 h1 where s: "hopfield_step_async dot a W h = (r1, h1)"
    by (cases "hopfield_step_async dot a W h") blast
  note f = hopfield_step_async_frame [OF s]
  show ?case
  proof (cases r1)
    case (Inl e)
    with s Suc.prems have "h' = h1" by simp
    moreover have "r = Inl e" using Inl s Suc.prems by simp
    ultimately show ?thesis using f by simp
  next
    case (Inr x)
    with f have "x = a" by simp
    with Inr s Suc.prems have "recall_loop dot k a W h1 = (r, h')" by simp
    from Suc.IH [OF this] f show ?thesis by simp
  qed
qed

text \<open>
  Claim C10. For every pattern, weight matrix, step count and store, and whatever the
  dot product returns, \<open>recall_async\<close>
  allocates one new array and leaves every array that existed before the call as it
  was, the pattern among them, also when the call ends with an exception; the array it
  returns is the new one. (\<open>hopfield_step_async\<close> on its own overwrites the array it is
  given, as the last line of the example shows.)
\<close>

theorem recall_async_keeps_pattern:
  "length (snd (recall_async dot pattern W steps h)) = Suc (length h) \<and>
   take (length h) (snd (recall_async dot pattern W steps h)) = h \<and>
   (pattern < length h \<longrightarrow> snd (recall_async dot pattern W steps h) ! pattern = h ! pattern) \<and>
   (\<forall>x. fst (recall_async dot pattern W steps h) = Inr x \<longrightarrow> x = length h)"
proof -
  let ?h = "h @ [h ! pattern]"
  obtain r h' where rc: "recall_async dot pattern W steps h = (r, h')"
    by (cases "recall_async dot pattern W steps h") blast
  then have "recall_loop dot (py_range_len steps) (length h) W ?h = (r, h')"
    by (simp add: recall_async_def np_copy_def)
  from recall_loop_frame [OF this]
  have len: "length h' = Suc (length h)"
    and same: "\<forall>b. b \<noteq> length h \<longrightarrow> h' ! b = ?h ! b"
    and addr: "\<forall>x. r = Inr x \<longrightarrow> x = length h"
    by simp_all
  have tk: "take (length h) h' = h"
  proof (rule nth_equalityI)
    show "length (take (length h) h') = length h" using len by simp
    fix i assume "i < length (take (length h) h')"
    then have "i < length h" by simp
    then show "take (length h) h' ! i = h ! i" using same by (simp add: nth_append)
  qed
  have pt: "pattern < length h \<longrightarrow> h' ! pattern = h ! pattern"
    using same by (simp add: nth_append)
  show ?thesis using rc len tk pt addr by auto
qed

theorem recall_async_keeps_pattern_witness:
  "(0 :: nat) < length [[1, 1 :: int]] \<and>
   recall_async dot_sum 0 [[0, - 1], [- 1, 0]] 2 [[1, 1]] = (Inr 1, [[1, 1], [- 1, 1]]) \<and>
   snd (recall_async dot_sum 0 [[0, - 1], [- 1, 0]] 2 [[1, 1]]) ! 0 = [1, 1] \<and>
   hopfield_step_async dot_sum 0 [[0, - 1], [- 1, 0]] [[1, 1]] = (Inr 0, [[- 1, 1]])"
proof -
  let ?W = "[[0, - 1], [- 1, 0 :: real]]"
  have rl: "recall_loop dot_sum (Suc (Suc 0)) 1 ?W [[1, 1], [1, 1]] = (Inr 1, [[1, 1], [- 1, 1]])"
    using recall_loop_run [where a = 1 and h = "[[1, 1], [1, 1]]" and W = ?W and k = "Suc (Suc 0)"
            and dot = dot_sum] sweep_example
    by (simp add: nth_Cons')
  have rc: "recall_async dot_sum 0 ?W 2 [[1, 1]] = (Inr 1, [[1, 1], [- 1, 1]])"
    using rl by (simp add: recall_async_def np_copy_def py_range_len_def numeral_2_eq_2)
  have st: "hopfield_step_async dot_sum 0 ?W [[1, 1]] = (Inr 0, [[- 1, 1]])"
    using hopfield_step_async_run [where a = 0 and h = "[[1, 1]]" and W = ?W and dot = dot_sum] sweep_example
    by (simp add: nth_Cons')
  show ?thesis
    using recall_async_keeps_pattern [where pattern = 0 and W = ?W and steps = 2 and h = "[[1, 1]]"
            and dot = dot_sum] rc st by simp
qed

end
